theory Spec2Isabelle
  imports Complex_Main
begin

section \<open>Mesh buffers and the merge engine\<close>

text \<open>
  The rose scene builds each organ from many small three.js geometries and joins them with
  \<^verbatim>\<open>mergeGeometries\<close>. A geometry is a bag of optional attributes (position, normal, uv)
  and an optional index; an attribute is a flat typed array read in groups of
  \<^verbatim>\<open>itemSize\<close>, with \<^verbatim>\<open>count\<close> groups. JavaScript numbers held in the float
  arrays are read as reals; vertex indices and counts are naturals. An index written to the
  output \<^verbatim>\<open>Uint32Array\<close> is reduced modulo \<open>2 ^ 32\<close>.

  Errors that the JavaScript would throw are values: reading \<^verbatim>\<open>.count\<close> of a missing
  attribute is a \<^verbatim>\<open>TypeError\<close>, and \<^verbatim>\<open>TypedArray.set\<close> with a source that
  does not fit is a \<^verbatim>\<open>RangeError\<close>.
\<close>

datatype error = TypeError | RangeError

record 'a BufferAttribute =
  array :: "'a list"
  itemSize :: nat
  count :: nat

record BufferGeometry =
  position :: "real BufferAttribute option"
  normal :: "real BufferAttribute option"
  uv :: "real BufferAttribute option"
  index :: "nat BufferAttribute option"

text \<open>\<^verbatim>\<open>new THREE.BufferAttribute(array, itemSize)\<close>: the count is the array length
  divided by the item size.\<close>

definition BufferAttribute_new :: "'a list \<Rightarrow> nat \<Rightarrow> 'a BufferAttribute" where
  "BufferAttribute_new arr n = \<lparr>array = arr, itemSize = n, count = length arr div n\<rparr>"

text \<open>\<^verbatim>\<open>new THREE.BufferGeometry()\<close>: no attributes and no index.\<close>

definition BufferGeometry_new :: BufferGeometry where
  "BufferGeometry_new = \<lparr>position = None, normal = None, uv = None, index = None\<rparr>"

text \<open>\<^verbatim>\<open>attr.getX(i)\<close> reads \<^verbatim>\<open>array[i * itemSize]\<close>; past the end of a typed
  array the read is \<^verbatim>\<open>undefined\<close>, here \<open>None\<close>.\<close>

definition getX :: "'a BufferAttribute \<Rightarrow> nat \<Rightarrow> 'a option" where
  "getX a i = (if i * itemSize a < length (array a) then Some (array a ! (i * itemSize a)) else None)"

text \<open>\<^verbatim>\<open>target.set(source, offset)\<close> on typed arrays: a \<^verbatim>\<open>RangeError\<close> when the
  source does not fit behind the offset, otherwise the source overwrites that stretch.\<close>

definition typed_array_set :: "'a list \<Rightarrow> 'a list \<Rightarrow> nat \<Rightarrow> error + 'a list" where
  "typed_array_set target source off =
     (if off + length source > length target then Inl RangeError
      else Inr (take off target @ source @ drop (off + length source) target))"

text \<open>Storing a number into a \<^verbatim>\<open>Uint32Array\<close> slot: \<^verbatim>\<open>undefined + n\<close> is
  \<^verbatim>\<open>NaN\<close>, which is stored as 0; anything else wraps modulo \<open>2 ^ 32\<close>.\<close>

definition to_uint32 :: "nat option \<Rightarrow> nat" where
  "to_uint32 v = (case v of None \<Rightarrow> 0 | Some n \<Rightarrow> n mod 4294967296)"

text \<open>The first loop of \<^verbatim>\<open>mergeGeometries\<close>: the running totals of vertices and
  indices. A geometry without a position attribute throws here.\<close>

fun count_totals :: "BufferGeometry list \<Rightarrow> nat \<Rightarrow> nat \<Rightarrow> error + (nat \<times> nat)" where
  "count_totals [] totalVertices totalIndices = Inr (totalVertices, totalIndices)"
| "count_totals (geo # rest) totalVertices totalIndices =
     (case position geo of
        None \<Rightarrow> Inl TypeError
      | Some pos \<Rightarrow>
          count_totals rest (totalVertices + count pos)
            (case index geo of
               Some idx \<Rightarrow> totalIndices + count idx
             | None \<Rightarrow> totalIndices + count pos))"

text \<open>The state of the second loop: the four output arrays and the two running offsets.\<close>

record merge_state =
  positionArr :: "real list"
  normalArr :: "real list"
  uvArr :: "real list"
  indicesArr :: "nat list"
  vertexOffset :: nat
  indexOffset :: nat

text \<open>The three inner loops. A write past the end of a typed array is ignored, which is what
  list update does.\<close>

definition fill_default_normals :: "real list \<Rightarrow> nat \<Rightarrow> nat \<Rightarrow> real list" where
  "fill_default_normals arr vo n = fold (\<lambda>k a. a[(vo + k) * 3 + 1 := 1]) [0..<n] arr"

definition write_indexed :: "nat list \<Rightarrow> nat BufferAttribute \<Rightarrow> nat \<Rightarrow> nat \<Rightarrow> nat list" where
  "write_indexed arr idx vo io =
     fold (\<lambda>i a. a[io + i := to_uint32 (map_option (\<lambda>v. v + vo) (getX idx i))]) [0..<count idx] arr"

definition write_sequential :: "nat list \<Rightarrow> nat \<Rightarrow> nat \<Rightarrow> nat \<Rightarrow> nat list" where
  "write_sequential arr n vo io =
     fold (\<lambda>i a. a[io + i := to_uint32 (Some (i + vo))]) [0..<n] arr"

text \<open>One pass of the second loop, block by block in the order of the source. The copy of
  the positions is guarded by \<^verbatim>\<open>if (pos)\<close>; the default-normal loop, the sequential
  index run and the advance of the vertex offset read \<^verbatim>\<open>pos.count\<close> unguarded, a
  \<^verbatim>\<open>TypeError\<close> without a position attribute.\<close>

definition copy_positions :: "merge_state \<Rightarrow> BufferGeometry \<Rightarrow> error + real list" where
  "copy_positions st geo =
     (case position geo of
        Some pos \<Rightarrow> typed_array_set (positionArr st) (array pos) (vertexOffset st * 3)
      | None \<Rightarrow> Inr (positionArr st))"

definition copy_normals :: "merge_state \<Rightarrow> BufferGeometry \<Rightarrow> error + real list" where
  "copy_normals st geo =
     (case normal geo of
        Some nrm \<Rightarrow> typed_array_set (normalArr st) (array nrm) (vertexOffset st * 3)
      | None \<Rightarrow>
          (case position geo of
             None \<Rightarrow> Inl TypeError
           | Some pos \<Rightarrow>
               Inr (fill_default_normals (normalArr st) (vertexOffset st) (count pos))))"

definition copy_uvs :: "merge_state \<Rightarrow> BufferGeometry \<Rightarrow> error + real list" where
  "copy_uvs st geo =
     (case uv geo of
        Some u \<Rightarrow> typed_array_set (uvArr st) (array u) (vertexOffset st * 2)
      | None \<Rightarrow> Inr (uvArr st))"

text \<open>The index block returns the index array and the advanced index offset.\<close>

definition copy_indices :: "merge_state \<Rightarrow> BufferGeometry \<Rightarrow> error + (nat list \<times> nat)" where
  "copy_indices st geo =
     (case index geo of
        Some idx \<Rightarrow>
          Inr (write_indexed (indicesArr st) idx (vertexOffset st) (indexOffset st),
               indexOffset st + count idx)
      | None \<Rightarrow>
          (case position geo of
             None \<Rightarrow> Inl TypeError
           | Some pos \<Rightarrow>
               Inr (write_sequential (indicesArr st) (count pos) (vertexOffset st) (indexOffset st),
                    indexOffset st + count pos)))"

definition merge_step :: "merge_state \<Rightarrow> BufferGeometry \<Rightarrow> error + merge_state" where
  "merge_step st geo =
     (case copy_positions st geo of
        Inl e \<Rightarrow> Inl e
      | Inr pa \<Rightarrow>
     (case copy_normals st geo of
        Inl e \<Rightarrow> Inl e
      | Inr na \<Rightarrow>
     (case copy_uvs st geo of
        Inl e \<Rightarrow> Inl e
      | Inr ua \<Rightarrow>
     (case copy_indices st geo of
        Inl e \<Rightarrow> Inl e
      | Inr (ia, io) \<Rightarrow>
     (case position geo of
        None \<Rightarrow> Inl TypeError
      | Some pos \<Rightarrow>
          Inr \<lparr>positionArr = pa, normalArr = na, uvArr = ua, indicesArr = ia,
               vertexOffset = vertexOffset st + count pos, indexOffset = io\<rparr>)))))"

fun merge_loop :: "merge_state \<Rightarrow> BufferGeometry list \<Rightarrow> error + merge_state" where
  "merge_loop st [] = Inr st"
| "merge_loop st (geo # rest) =
     (case merge_step st geo of Inl e \<Rightarrow> Inl e | Inr st' \<Rightarrow> merge_loop st' rest)"

definition mergeGeometries :: "BufferGeometry list \<Rightarrow> error + BufferGeometry" where
  "mergeGeometries geometries =
     (if geometries = [] then Inr BufferGeometry_new
      else case count_totals geometries 0 0 of
        Inl e \<Rightarrow> Inl e
      | Inr (totalVertices, totalIndices) \<Rightarrow>
          (case merge_loop
                  \<lparr>positionArr = replicate (totalVertices * 3) 0,
                   normalArr = replicate (totalVertices * 3) 0,
                   uvArr = replicate (totalVertices * 2) 0,
                   indicesArr = replicate totalIndices 0,
                   vertexOffset = 0, indexOffset = 0\<rparr> geometries of
             Inl e \<Rightarrow> Inl e
           | Inr st \<Rightarrow>
               Inr \<lparr>position = Some (BufferAttribute_new (positionArr st) 3),
                    normal = Some (BufferAttribute_new (normalArr st) 3),
                    uv = Some (BufferAttribute_new (uvArr st) 2),
                    index = Some (BufferAttribute_new (indicesArr st) 1)\<rparr>))"

subsection \<open>Reading a mesh buffer\<close>

text \<open>The number of vertices of a geometry is the count of its position attribute; a
  geometry without one has no vertices. Likewise for the index.\<close>

definition vertex_count :: "BufferGeometry \<Rightarrow> nat" where
  "vertex_count g = (case position g of None \<Rightarrow> 0 | Some pos \<Rightarrow> count pos)"

definition index_count :: "BufferGeometry \<Rightarrow> nat" where
  "index_count g = (case index g of None \<Rightarrow> 0 | Some idx \<Rightarrow> count idx)"

definition index_values :: "BufferGeometry \<Rightarrow> nat list" where
  "index_values g = (case index g of None \<Rightarrow> [] | Some idx \<Rightarrow> array idx)"

text \<open>What the second loop emits for one input: its index count when it is indexed, its
  vertex count otherwise.\<close>

definition emitted_index_count :: "BufferGeometry \<Rightarrow> nat" where
  "emitted_index_count g = (case index g of Some idx \<Rightarrow> count idx | None \<Rightarrow> vertex_count g)"

text \<open>The item stretch of a flat array: \<open>n\<close> items of \<open>w\<close> components, from item
  \<open>off\<close> on.\<close>

definition stretch :: "nat \<Rightarrow> nat \<Rightarrow> nat \<Rightarrow> 'a list \<Rightarrow> 'a list" where
  "stretch w off n arr = take (w * n) (drop (w * off) arr)"

subsection \<open>Well-formed inputs\<close>

text \<open>
  The mesh buffers of the data model: a position attribute of three components per vertex;
  normals (three components) and texture coordinates (two components), when present, for
  exactly the same vertices; an index, when present, of single items. And the invariant of
  the data model: every index names a vertex of the buffer.
\<close>

definition attributes_fit :: "BufferGeometry \<Rightarrow> bool" where
  "attributes_fit g =
     (case position g of
        None \<Rightarrow> False
      | Some pos \<Rightarrow>
          length (array pos) = 3 * count pos
          \<and> (case normal g of None \<Rightarrow> True | Some nrm \<Rightarrow> length (array nrm) = 3 * count pos)
          \<and> (case uv g of None \<Rightarrow> True | Some u \<Rightarrow> length (array u) = 2 * count pos)
          \<and> (case index g of None \<Rightarrow> True
              | Some idx \<Rightarrow> itemSize idx = 1 \<and> length (array idx) = count idx))"

definition indices_in_range :: "BufferGeometry \<Rightarrow> bool" where
  "indices_in_range g = list_all (\<lambda>i. i < vertex_count g) (index_values g)"

definition mesh_buffer :: "BufferGeometry \<Rightarrow> bool" where
  "mesh_buffer g = (attributes_fit g \<and> indices_in_range g)"

text \<open>An input keeps the triangle shape of the index list when what it emits comes in
  triples.\<close>

definition triangle_shaped :: "BufferGeometry \<Rightarrow> bool" where
  "triangle_shaped g =
     (case index g of Some idx \<Rightarrow> 3 dvd count idx | None \<Rightarrow> 3 dvd vertex_count g)"

subsection \<open>The contents of the merged arrays, input by input\<close>

text \<open>These functions are the vocabulary of the proofs below: what one input contributes to
  each output array. The theorems relate them to what \<open>mergeGeometries\<close> computes.\<close>

definition positions_of :: "BufferGeometry \<Rightarrow> real list" where
  "positions_of g = (case position g of Some pos \<Rightarrow> array pos | None \<Rightarrow> [])"

definition normals_of :: "BufferGeometry \<Rightarrow> real list" where
  "normals_of g =
     (case normal g of
        Some nrm \<Rightarrow> array nrm
      | None \<Rightarrow> concat (replicate (vertex_count g) [0, 1, 0]))"

definition uvs_of :: "BufferGeometry \<Rightarrow> real list" where
  "uvs_of g = (case uv g of Some u \<Rightarrow> array u | None \<Rightarrow> replicate (2 * vertex_count g) 0)"

definition indices_of :: "nat \<Rightarrow> BufferGeometry \<Rightarrow> nat list" where
  "indices_of vo g =
     (case index g of
        Some idx \<Rightarrow> map (\<lambda>v. (v + vo) mod 4294967296) (array idx)
      | None \<Rightarrow> map (\<lambda>i. (i + vo) mod 4294967296) [0..<vertex_count g])"

fun indices_from :: "nat \<Rightarrow> BufferGeometry list \<Rightarrow> nat list" where
  "indices_from vo [] = []"
| "indices_from vo (g # gs) = indices_of vo g @ indices_from (vo + vertex_count g) gs"

text \<open>A loop state whose arrays are filled up to the running offsets and still zero behind
  them, with room for \<open>r\<close> more vertices and \<open>s\<close> more indices.\<close>

definition padded_state ::
  "nat \<Rightarrow> real list \<Rightarrow> real list \<Rightarrow> real list \<Rightarrow> nat list \<Rightarrow> nat \<Rightarrow> nat \<Rightarrow> merge_state" where
  "padded_state vo P N U X r s =
     \<lparr>positionArr = P @ replicate (3 * r) 0, normalArr = N @ replicate (3 * r) 0,
      uvArr = U @ replicate (2 * r) 0, indicesArr = X @ replicate s 0,
      vertexOffset = vo, indexOffset = length X\<rparr>"

subsection \<open>Two small geometries\<close>

text \<open>A quad of 4 vertices drawn as 2 indexed triangles, with normals and uvs, and a bare
  triangle of 3 vertices with positions only.\<close>

definition quad :: BufferGeometry where
  "quad =
     \<lparr>position = Some (BufferAttribute_new [0, 0, 0, 1, 0, 0, 1, 1, 0, 0, 1, 0] 3),
      normal = Some (BufferAttribute_new [0, 0, 1, 0, 0, 1, 0, 0, 1, 0, 0, 1] 3),
      uv = Some (BufferAttribute_new [0, 0, 1, 0, 1, 1, 0, 1] 2),
      index = Some (BufferAttribute_new [0, 1, 2, 0, 2, 3] 1)\<rparr>"

definition triangle :: BufferGeometry where
  "triangle =
     \<lparr>position = Some (BufferAttribute_new [2, 0, 0, 3, 0, 0, 2, 1, 0] 3),
      normal = None, uv = None, index = None\<rparr>"

text \<open>Two geometries with positions only that are not triangle lists: a single vertex, and
  a pair of vertices.\<close>

definition lone_vertex :: BufferGeometry where
  "lone_vertex =
     \<lparr>position = Some (BufferAttribute_new [5, 0, 0] 3),
      normal = None, uv = None, index = None\<rparr>"

definition vertex_pair :: BufferGeometry where
  "vertex_pair =
     \<lparr>position = Some (BufferAttribute_new [6, 0, 0, 7, 0, 0] 3),
      normal = None, uv = None, index = None\<rparr>"

section \<open>Petal placement\<close>

text \<open>
  The loop of \<^verbatim>\<open>FlowerHead\<close> that places the petals. JavaScript numbers are read as
  reals and \<^verbatim>\<open>Math.PI\<close> as \<open>pi\<close>. Each pass computes the angle, the tier
  configuration, and the translation, Euler rotation and scale handed to
  \<^verbatim>\<open>matrix.compose\<close>.
\<close>

definition goldenAngle :: real where
  "goldenAngle = 137.5 * (pi / 180)"

definition totalPetals :: nat where
  "totalPetals = 22"

record petal_config =
  cfg_radius :: real
  cfg_y :: real
  cfg_scale :: real
  cfg_rotX :: real

definition petal_config_of :: "nat \<Rightarrow> petal_config" where
  "petal_config_of i =
     (if i < 5 then
        \<lparr>cfg_radius = 0.05, cfg_y = 0.6 + real i * 0.03, cfg_scale = 0.35, cfg_rotX = 0.1\<rparr>
      else if i < 10 then
        (let t = (real i - 5) / 5 in
         \<lparr>cfg_radius = 0.15 + t * 0.08, cfg_y = 0.65 - t * 0.1, cfg_scale = 0.5 + t * 0.15,
          cfg_rotX = 0.05\<rparr>)
      else if i < 16 then
        (let t = (real i - 10) / 6 in
         \<lparr>cfg_radius = 0.25 + t * 0.15, cfg_y = 0.55 - t * 0.08, cfg_scale = 0.7 + t * 0.15,
          cfg_rotX = 0.1\<rparr>)
      else
        (let t = (real i - 16) / 6 in
         \<lparr>cfg_radius = 0.45 + t * 0.05, cfg_y = 0.45 - t * 0.05, cfg_scale = 0.95,
          cfg_rotX = 0.2\<rparr>))"

record petal_placement =
  petal_theta :: real
  petal_x :: real
  petal_y :: real
  petal_z :: real
  petal_rotX :: real
  petal_rotY :: real
  petal_scale :: real

definition petal_placement_of :: "nat \<Rightarrow> petal_placement" where
  "petal_placement_of i =
     (let theta = real i * goldenAngle;
          config = petal_config_of i
      in \<lparr>petal_theta = theta,
          petal_x = cos theta * cfg_radius config,
          petal_y = cfg_y config,
          petal_z = sin theta * cfg_radius config,
          petal_rotX = cfg_rotX config,
          petal_rotY = - theta - pi / 2,
          petal_scale = cfg_scale config\<rparr>)"

definition FlowerHead_placements :: "petal_placement list" where
  "FlowerHead_placements = map petal_placement_of [0..<totalPetals]"

section \<open>The petal width envelope\<close>

text \<open>
  In \<^verbatim>\<open>createPetalGeometry\<close> the longitudinal coordinate is clamped into \<open>[0, 1]\<close>
  and the lateral coordinate is scaled by the width envelope times 1.5. The envelope, in the
  three assignments of the source; \<^verbatim>\<open>Math.pow\<close> on a non-negative base is \<open>powr\<close>.
\<close>

definition petal_v :: "real \<Rightarrow> real" where
  "petal_v vertex_y = max 0 (min 1 (vertex_y + 0.5))"

definition shapeWidth :: "real \<Rightarrow> real" where
  "shapeWidth v =
     (let w0 = sin (v * pi * 0.85);
          w1 = (max 0 w0) powr 0.4
      in w1 * min 1.0 (v * 3.5))"

section \<open>Thorn placement and the curve frame\<close>

text \<open>The part of three.js's \<^verbatim>\<open>Vector3\<close> and \<^verbatim>\<open>Quaternion\<close> that the thorn
  loop of \<^verbatim>\<open>Stem\<close> uses, over the reals.\<close>

record Vector3 =
  vx :: real
  vy :: real
  vz :: real

record Quaternion =
  qx :: real
  qy :: real
  qz :: real
  qw :: real

definition dot :: "Vector3 \<Rightarrow> Vector3 \<Rightarrow> real" where
  "dot a b = vx a * vx b + vy a * vy b + vz a * vz b"

definition lengthSq :: "Vector3 \<Rightarrow> real" where
  "lengthSq v = vx v * vx v + vy v * vy v + vz v * vz v"

definition vlength :: "Vector3 \<Rightarrow> real" where
  "vlength v = sqrt (lengthSq v)"

definition multiplyScalar :: "Vector3 \<Rightarrow> real \<Rightarrow> Vector3" where
  "multiplyScalar v s = \<lparr>vx = vx v * s, vy = vy v * s, vz = vz v * s\<rparr>"

definition divideScalar :: "Vector3 \<Rightarrow> real \<Rightarrow> Vector3" where
  "divideScalar v s = multiplyScalar v (1 / s)"

text \<open>\<^verbatim>\<open>normalize\<close> divides by \<^verbatim>\<open>this.length() || 1\<close>: a zero vector stays as it
  is.\<close>

definition normalize :: "Vector3 \<Rightarrow> Vector3" where
  "normalize v = divideScalar v (if vlength v = 0 then 1 else vlength v)"

definition negate :: "Vector3 \<Rightarrow> Vector3" where
  "negate v = \<lparr>vx = - vx v, vy = - vy v, vz = - vz v\<rparr>"

definition crossVectors :: "Vector3 \<Rightarrow> Vector3 \<Rightarrow> Vector3" where
  "crossVectors a b =
     \<lparr>vx = vy a * vz b - vz a * vy b,
      vy = vz a * vx b - vx a * vz b,
      vz = vx a * vy b - vy a * vx b\<rparr>"

definition setFromAxisAngle :: "Vector3 \<Rightarrow> real \<Rightarrow> Quaternion" where
  "setFromAxisAngle axis angle =
     (let halfAngle = angle / 2; s = sin halfAngle
      in \<lparr>qx = vx axis * s, qy = vy axis * s, qz = vz axis * s, qw = cos halfAngle\<rparr>)"

definition applyQuaternion :: "Vector3 \<Rightarrow> Quaternion \<Rightarrow> Vector3" where
  "applyQuaternion v q =
     (let tx = 2 * (qy q * vz v - qz q * vy v);
          ty = 2 * (qz q * vx v - qx q * vz v);
          tz = 2 * (qx q * vy v - qy q * vx v)
      in \<lparr>vx = vx v + qw q * tx + qy q * tz - qz q * ty,
          vy = vy v + qw q * ty + qz q * tx - qx q * tz,
          vz = vz v + qw q * tz + qx q * ty - qy q * tx\<rparr>)"

definition applyAxisAngle :: "Vector3 \<Rightarrow> Vector3 \<Rightarrow> real \<Rightarrow> Vector3" where
  "applyAxisAngle v axis angle = applyQuaternion v (setFromAxisAngle axis angle)"

text \<open>The thorn loop. The two random draws that matter here are parameters: the jitter
  added to the base curve parameter, and the angle of the thorn around the stem.\<close>

definition thornCount :: nat where
  "thornCount = 20"

definition tBase :: "nat \<Rightarrow> real" where
  "tBase i = 0.15 + (real i / real thornCount) * 0.83"

definition tJitter_of :: "real \<Rightarrow> real" where
  "tJitter_of random = (random - 0.5) * 0.04"

definition thorn_t :: "nat \<Rightarrow> real \<Rightarrow> real" where
  "thorn_t i tJitter = max 0.12 (min 0.99 (tBase i + tJitter))"

definition thorn_angle :: "nat \<Rightarrow> real \<Rightarrow> real" where
  "thorn_angle i random = real i * 2.5 + random * 0.5"

text \<open>The tangent handed to the frame: the normalised curve tangent, or straight down when
  it is degenerate.\<close>

definition thorn_tangent :: "Vector3 \<Rightarrow> Vector3" where
  "thorn_tangent curveTangent =
     (let tangent = normalize curveTangent
      in if lengthSq tangent < 0.1 then \<lparr>vx = 0, vy = -1, vz = 0\<rparr> else tangent)"

definition thorn_up :: "Vector3 \<Rightarrow> Vector3" where
  "thorn_up tangent =
     (if \<bar>vy tangent\<bar> > 0.9 then \<lparr>vx = 0, vy = 0, vz = 1\<rparr> else \<lparr>vx = 0, vy = 1, vz = 0\<rparr>)"

record thorn_frame =
  xAxis :: Vector3
  yAxis :: Vector3
  zAxis :: Vector3

definition thorn_basis :: "Vector3 \<Rightarrow> real \<Rightarrow> thorn_frame" where
  "thorn_basis tangent angle =
     (let up = thorn_up tangent;
          binormal = normalize (crossVectors tangent up);
          nrm = normalize (applyAxisAngle binormal tangent angle);
          y = nrm;
          zAxisApprox = negate tangent;
          x = normalize (crossVectors y zAxisApprox);
          z = normalize (crossVectors x y)
      in \<lparr>xAxis = x, yAxis = y, zAxis = z\<rparr>)"

section \<open>Properties of the merge engine\<close>

lemma count_totals_missing_position:
  "g \<in> set gs \<Longrightarrow> position g = None \<Longrightarrow> count_totals gs tv ti = Inl TypeError"
proof (induction gs arbitrary: tv ti)
  case Nil
  then show ?case by simp
next
  case (Cons a gs)
  show ?case
  proof (cases "position a")
    case None
    then show ?thesis by simp
  next
    case (Some pos)
    with Cons.prems have "g \<in> set gs" by auto
    with Cons.IH Cons.prems(2) Some show ?thesis by simp
  qed
qed

subsection \<open>The inner loops on a padded state\<close>

lemma typed_array_set_padded:
  "length P = off \<Longrightarrow> length src \<le> length R \<Longrightarrow>
   typed_array_set (P @ R) src off = Inr (P @ src @ drop (length src) R)"
  by (simp add: typed_array_set_def)

lemma fold_update_run:
  "length X = io \<Longrightarrow> n \<le> length R \<Longrightarrow>
   fold (\<lambda>i a. a[io + i := f i]) [0..<n] (X @ R) = X @ map f [0..<n] @ drop n R"
proof (induction n)
  case 0
  then show ?case by simp
next
  case (Suc n)
  then have n: "n < length R" by simp
  have "fold (\<lambda>i a. a[io + i := f i]) [0..<Suc n] (X @ R)
        = (X @ map f [0..<n] @ drop n R)[io + n := f n]"
    using Suc by simp
  also have "\<dots> = X @ map f [0..<n] @ (drop n R)[0 := f n]"
    using Suc.prems(1) by (simp add: list_update_append)
  also have "(drop n R)[0 := f n] = f n # drop (Suc n) R"
    using n by (simp add: Cons_nth_drop_Suc [symmetric])
  finally show ?case by simp
qed

lemma concat_replicate_Suc_right:
  "concat (replicate (Suc n) xs) = concat (replicate n xs) @ xs"
  by (induction n) simp_all

lemma length_concat_replicate_triple:
  "length (concat (replicate n [a, b, c])) = 3 * n"
  by (induction n) simp_all

lemma fill_default_normals_padded:
  "length N = 3 * vo \<Longrightarrow> n \<le> r \<Longrightarrow>
   fill_default_normals (N @ replicate (3 * r) 0) vo n
     = N @ concat (replicate n [0, 1, 0]) @ replicate (3 * (r - n)) 0"
proof (induction n)
  case 0
  then show ?case by (simp add: fill_default_normals_def)
next
  case (Suc n)
  then obtain d where r: "r = Suc n + d" using le_Suc_ex by blast
  let ?C = "concat (replicate n [0, 1, 0::real])"
  have pad: "replicate (3 * (r - n)) (0::real) = [0, 0, 0] @ replicate (3 * d) 0"
    unfolding r by (simp add: numeral_3_eq_3)
  have "fill_default_normals (N @ replicate (3 * r) 0) vo (Suc n)
        = (N @ ?C @ replicate (3 * (r - n)) 0)[(vo + n) * 3 + 1 := 1]"
    using Suc by (simp add: fill_default_normals_def)
  also have "\<dots> = N @ ?C @ (replicate (3 * (r - n)) 0)[1 := 1]"
    using Suc.prems(1) by (simp add: list_update_append length_concat_replicate_triple)
  also have "\<dots> = N @ ?C @ [0, 1, 0] @ replicate (3 * d) 0"
    unfolding pad by simp
  also have "\<dots> = N @ concat (replicate (Suc n) [0, 1, 0]) @ replicate (3 * d) 0"
    unfolding concat_replicate_Suc_right by simp
  finally show ?case using r by simp
qed

lemma write_indexed_padded:
  assumes "itemSize idx = 1" "length (array idx) = count idx" "count idx \<le> s"
  shows "write_indexed (X @ replicate s 0) idx vo (length X)
         = X @ map (\<lambda>v. (v + vo) mod 4294967296) (array idx) @ replicate (s - count idx) 0"
proof -
  have "map (\<lambda>i. to_uint32 (map_option (\<lambda>v. v + vo) (getX idx i))) [0..<count idx]
        = map (\<lambda>i. (array idx ! i + vo) mod 4294967296) [0..<length (array idx)]"
    using assms(1,2) by (simp add: getX_def to_uint32_def)
  also have "\<dots> = map (\<lambda>v. (v + vo) mod 4294967296) (array idx)"
    by (rule nth_equalityI) simp_all
  finally show ?thesis
    using assms(3) by (simp add: write_indexed_def fold_update_run)
qed

lemma write_sequential_padded:
  assumes "n \<le> s"
  shows "write_sequential (X @ replicate s 0) n vo (length X)
         = X @ map (\<lambda>i. (i + vo) mod 4294967296) [0..<n] @ replicate (s - n) 0"
  using assms by (simp add: write_sequential_def fold_update_run to_uint32_def)

lemma attributes_fit_position:
  "attributes_fit g \<Longrightarrow> \<exists>pos. position g = Some pos \<and> length (array pos) = 3 * count pos"
  by (auto simp: attributes_fit_def split: option.splits)

lemma attributes_fit_normal:
  "attributes_fit g \<Longrightarrow> position g = Some pos \<Longrightarrow> normal g = Some nrm
   \<Longrightarrow> length (array nrm) = 3 * count pos"
  by (auto simp: attributes_fit_def split: option.splits)

lemma attributes_fit_uv:
  "attributes_fit g \<Longrightarrow> position g = Some pos \<Longrightarrow> uv g = Some u
   \<Longrightarrow> length (array u) = 2 * count pos"
  by (auto simp: attributes_fit_def split: option.splits)

lemma attributes_fit_index:
  "attributes_fit g \<Longrightarrow> index g = Some idx
   \<Longrightarrow> itemSize idx = 1 \<and> length (array idx) = count idx"
  by (auto simp: attributes_fit_def split: option.splits)

lemma copy_positions_padded:
  assumes "position g = Some pos" "length (array pos) = 3 * count pos"
    and "length P = 3 * vo" "count pos \<le> r"
  shows "copy_positions (padded_state vo P N U X r s) g
         = Inr ((P @ array pos) @ replicate (3 * (r - count pos)) 0)"
  using assms
  by (simp add: copy_positions_def padded_state_def typed_array_set_padded diff_mult_distrib2)

lemma copy_normals_padded:
  assumes "position g = Some pos"
    and "\<And>nrm. normal g = Some nrm \<Longrightarrow> length (array nrm) = 3 * count pos"
    and "length N = 3 * vo" "count pos \<le> r"
  shows "copy_normals (padded_state vo P N U X r s) g
         = Inr ((N @ normals_of g) @ replicate (3 * (r - count pos)) 0)"
proof (cases "normal g")
  case None
  then show ?thesis
    using assms(1,3,4)
    by (simp add: copy_normals_def padded_state_def fill_default_normals_padded normals_of_def
        vertex_count_def)
next
  case (Some nrm)
  with assms(2) have "length (array nrm) = 3 * count pos" by simp
  then show ?thesis
    using assms(3,4) Some
    by (simp add: copy_normals_def padded_state_def typed_array_set_padded normals_of_def
        diff_mult_distrib2)
qed

lemma copy_uvs_padded:
  assumes "position g = Some pos"
    and "\<And>u. uv g = Some u \<Longrightarrow> length (array u) = 2 * count pos"
    and "length U = 2 * vo" "count pos \<le> r"
  shows "copy_uvs (padded_state vo P N U X r s) g
         = Inr ((U @ uvs_of g) @ replicate (2 * (r - count pos)) 0)"
proof (cases "uv g")
  case None
  have "replicate (2 * r) (0::real)
        = replicate (2 * count pos) 0 @ replicate (2 * (r - count pos)) 0"
    using assms(4) by (simp add: replicate_add [symmetric] diff_mult_distrib2)
  then show ?thesis
    using None assms(1) by (simp add: copy_uvs_def padded_state_def uvs_of_def vertex_count_def)
next
  case (Some u)
  with assms(2) have "length (array u) = 2 * count pos" by simp
  then show ?thesis
    using assms(3,4) Some
    by (simp add: copy_uvs_def padded_state_def typed_array_set_padded uvs_of_def
        diff_mult_distrib2)
qed

lemma copy_indices_padded:
  assumes "position g = Some pos"
    and "\<And>idx. index g = Some idx \<Longrightarrow> itemSize idx = 1 \<and> length (array idx) = count idx"
    and "emitted_index_count g \<le> s"
  shows "copy_indices (padded_state vo P N U X r s) g
         = Inr ((X @ indices_of vo g) @ replicate (s - emitted_index_count g) 0,
                length (X @ indices_of vo g))"
proof (cases "index g")
  case None
  then show ?thesis
    using assms(1,3)
    by (simp add: copy_indices_def padded_state_def write_sequential_padded indices_of_def
        emitted_index_count_def vertex_count_def)
next
  case (Some idx)
  with assms(2) have "itemSize idx = 1" "length (array idx) = count idx" by simp_all
  then show ?thesis
    using assms(3) Some
    by (simp add: copy_indices_def padded_state_def write_indexed_padded indices_of_def
        emitted_index_count_def)
qed

lemma merge_step_padded:
  assumes fit: "attributes_fit g"
    and lens: "length P = 3 * vo" "length N = 3 * vo" "length U = 2 * vo"
    and room: "vertex_count g \<le> r" "emitted_index_count g \<le> s"
  shows "merge_step (padded_state vo P N U X r s) g
         = Inr (padded_state (vo + vertex_count g) (P @ positions_of g) (N @ normals_of g)
                  (U @ uvs_of g) (X @ indices_of vo g)
                  (r - vertex_count g) (s - emitted_index_count g))"
proof -
  from fit obtain pos where pos: "position g = Some pos"
    and plen: "length (array pos) = 3 * count pos"
    using attributes_fit_position by blast
  have nlen: "\<And>nrm. normal g = Some nrm \<Longrightarrow> length (array nrm) = 3 * count pos"
    using fit pos by (rule attributes_fit_normal)
  have ulen: "\<And>u. uv g = Some u \<Longrightarrow> length (array u) = 2 * count pos"
    using fit pos by (rule attributes_fit_uv)
  have ilen: "\<And>idx. index g = Some idx \<Longrightarrow> itemSize idx = 1 \<and> length (array idx) = count idx"
    using fit by (rule attributes_fit_index)
  have vc: "vertex_count g = count pos" by (simp add: vertex_count_def pos)
  have r: "count pos \<le> r" using room(1) vc by simp
  have 1: "copy_positions (padded_state vo P N U X r s) g
           = Inr ((P @ array pos) @ replicate (3 * (r - count pos)) 0)"
    using pos plen lens(1) r by (rule copy_positions_padded)
  have 2: "copy_normals (padded_state vo P N U X r s) g
           = Inr ((N @ normals_of g) @ replicate (3 * (r - count pos)) 0)"
    using pos nlen lens(2) r by (rule copy_normals_padded)
  have 3: "copy_uvs (padded_state vo P N U X r s) g
           = Inr ((U @ uvs_of g) @ replicate (2 * (r - count pos)) 0)"
    using pos ulen lens(3) r by (rule copy_uvs_padded)
  have 4: "copy_indices (padded_state vo P N U X r s) g
           = Inr ((X @ indices_of vo g) @ replicate (s - emitted_index_count g) 0,
                  length (X @ indices_of vo g))"
    using pos ilen room(2) by (rule copy_indices_padded)
  have vo: "vertexOffset (padded_state vo P N U X r s) = vo"
    by (simp add: padded_state_def)
  show ?thesis
    unfolding merge_step_def 1 2 3 4 vo
    by (simp add: pos vc positions_of_def padded_state_def)
qed

subsection \<open>The loops over the inputs\<close>

lemma count_totals_sums:
  "\<forall>g\<in>set gs. position g \<noteq> None \<Longrightarrow>
   count_totals gs tv ti
     = Inr (tv + sum_list (map vertex_count gs), ti + sum_list (map emitted_index_count gs))"
proof (induction gs arbitrary: tv ti)
  case Nil
  then show ?case by simp
next
  case (Cons g gs)
  then obtain pos where pos: "position g = Some pos" by auto
  show ?case
  proof (cases "index g")
    case None
    with Cons pos show ?thesis
      by (simp add: vertex_count_def emitted_index_count_def)
  next
    case (Some idx)
    with Cons pos show ?thesis
      by (simp add: vertex_count_def emitted_index_count_def)
  qed
qed

lemma length_positions_of: "attributes_fit g \<Longrightarrow> length (positions_of g) = 3 * vertex_count g"
  using attributes_fit_position [of g] by (auto simp: positions_of_def vertex_count_def)

lemma length_normals_of: "attributes_fit g \<Longrightarrow> length (normals_of g) = 3 * vertex_count g"
  using attributes_fit_position [of g] attributes_fit_normal [of g]
  by (cases "normal g")
    (auto simp: normals_of_def vertex_count_def length_concat_replicate_triple)

lemma length_uvs_of: "attributes_fit g \<Longrightarrow> length (uvs_of g) = 2 * vertex_count g"
  using attributes_fit_position [of g] attributes_fit_uv [of g]
  by (cases "uv g") (auto simp: uvs_of_def vertex_count_def)

lemma length_indices_of: "attributes_fit g \<Longrightarrow> length (indices_of vo g) = emitted_index_count g"
  using attributes_fit_index [of g]
  by (cases "index g") (auto simp: indices_of_def emitted_index_count_def)

lemma merge_loop_padded:
  assumes "\<forall>g\<in>set gs. attributes_fit g"
    and "length P = 3 * vo" "length N = 3 * vo" "length U = 2 * vo"
    and "sum_list (map vertex_count gs) \<le> r" "sum_list (map emitted_index_count gs) \<le> s"
  shows "merge_loop (padded_state vo P N U X r s) gs
         = Inr (padded_state (vo + sum_list (map vertex_count gs))
                  (P @ concat (map positions_of gs)) (N @ concat (map normals_of gs))
                  (U @ concat (map uvs_of gs)) (X @ indices_from vo gs)
                  (r - sum_list (map vertex_count gs))
                  (s - sum_list (map emitted_index_count gs)))"
  using assms
proof (induction gs arbitrary: vo P N U X r s)
  case Nil
  then show ?case by simp
next
  case (Cons g gs)
  from Cons.prems(1) have fit: "attributes_fit g" and fits: "\<forall>g\<in>set gs. attributes_fit g"
    by simp_all
  have room: "vertex_count g \<le> r" "emitted_index_count g \<le> s"
    using Cons.prems(5,6) by simp_all
  have step: "merge_step (padded_state vo P N U X r s) g
              = Inr (padded_state (vo + vertex_count g) (P @ positions_of g) (N @ normals_of g)
                       (U @ uvs_of g) (X @ indices_of vo g)
                       (r - vertex_count g) (s - emitted_index_count g))"
    using fit Cons.prems(2,3,4) room by (rule merge_step_padded)
  have rest: "merge_loop (padded_state (vo + vertex_count g) (P @ positions_of g) (N @ normals_of g)
                       (U @ uvs_of g) (X @ indices_of vo g)
                       (r - vertex_count g) (s - emitted_index_count g)) gs
         = Inr (padded_state (vo + vertex_count g + sum_list (map vertex_count gs))
                  ((P @ positions_of g) @ concat (map positions_of gs))
                  ((N @ normals_of g) @ concat (map normals_of gs))
                  ((U @ uvs_of g) @ concat (map uvs_of gs))
                  ((X @ indices_of vo g) @ indices_from (vo + vertex_count g) gs)
                  (r - vertex_count g - sum_list (map vertex_count gs))
                  (s - emitted_index_count g - sum_list (map emitted_index_count gs)))"
  proof (rule Cons.IH [OF fits])
    show "length (P @ positions_of g) = 3 * (vo + vertex_count g)"
      using Cons.prems(2) fit by (simp add: length_positions_of)
    show "length (N @ normals_of g) = 3 * (vo + vertex_count g)"
      using Cons.prems(3) fit by (simp add: length_normals_of)
    show "length (U @ uvs_of g) = 2 * (vo + vertex_count g)"
      using Cons.prems(4) fit by (simp add: length_uvs_of)
    show "sum_list (map vertex_count gs) \<le> r - vertex_count g"
      using Cons.prems(5) by simp
    show "sum_list (map emitted_index_count gs) \<le> s - emitted_index_count g"
      using Cons.prems(6) by simp
  qed
  show ?case
    unfolding merge_loop.simps step sum.case rest
    by (simp add: add.assoc)
qed

text \<open>The whole merge on inputs whose attribute arrays fit their vertex count.\<close>

lemma mergeGeometries_fit:
  assumes "gs \<noteq> []" "\<forall>g\<in>set gs. attributes_fit g"
  shows "mergeGeometries gs
         = Inr \<lparr>position = Some (BufferAttribute_new (concat (map positions_of gs)) 3),
                normal = Some (BufferAttribute_new (concat (map normals_of gs)) 3),
                uv = Some (BufferAttribute_new (concat (map uvs_of gs)) 2),
                index = Some (BufferAttribute_new (indices_from 0 gs) 1)\<rparr>"
proof -
  let ?V = "sum_list (map vertex_count gs)" and ?I = "sum_list (map emitted_index_count gs)"
  have "\<forall>g\<in>set gs. position g \<noteq> None"
    using assms(2) attributes_fit_position by fastforce
  then have tot: "count_totals gs 0 0 = Inr (?V, ?I)"
    by (simp add: count_totals_sums)
  have init: "\<lparr>positionArr = replicate (?V * 3) 0, normalArr = replicate (?V * 3) 0,
               uvArr = replicate (?V * 2) 0, indicesArr = replicate ?I 0,
               vertexOffset = 0, indexOffset = 0\<rparr> = padded_state 0 [] [] [] [] ?V ?I"
    by (simp add: padded_state_def mult.commute)
  have loop: "merge_loop (padded_state 0 [] [] [] [] ?V ?I) gs
         = Inr (padded_state (0 + ?V)
                  ([] @ concat (map positions_of gs)) ([] @ concat (map normals_of gs))
                  ([] @ concat (map uvs_of gs)) ([] @ indices_from 0 gs) (?V - ?V) (?I - ?I))"
    using assms(2) by (intro merge_loop_padded) simp_all
  have "mergeGeometries gs
        = (case merge_loop (padded_state 0 [] [] [] [] ?V ?I) gs of
             Inl e \<Rightarrow> Inl e
           | Inr st \<Rightarrow>
               Inr \<lparr>position = Some (BufferAttribute_new (positionArr st) 3),
                    normal = Some (BufferAttribute_new (normalArr st) 3),
                    uv = Some (BufferAttribute_new (uvArr st) 2),
                    index = Some (BufferAttribute_new (indicesArr st) 1)\<rparr>)"
    using assms(1) by (simp add: mergeGeometries_def tot init)
  also have "\<dots> = Inr \<lparr>position = Some (BufferAttribute_new (concat (map positions_of gs)) 3),
                normal = Some (BufferAttribute_new (concat (map normals_of gs)) 3),
                uv = Some (BufferAttribute_new (concat (map uvs_of gs)) 2),
                index = Some (BufferAttribute_new (indices_from 0 gs) 1)\<rparr>"
    unfolding loop by (simp add: padded_state_def)
  finally show ?thesis .
qed

subsection \<open>The claims about the merge\<close>

text \<open>
  Claim C4. Merging the empty sequence of geometries raises no error: it returns the empty
  geometry, which has 0 vertices and 0 indices.
\<close>

theorem merge_empty:
  "mergeGeometries [] = Inr BufferGeometry_new
   \<and> vertex_count BufferGeometry_new = 0
   \<and> index_count BufferGeometry_new = 0
   \<and> index_values BufferGeometry_new = []"
  by (simp add: mergeGeometries_def BufferGeometry_new_def vertex_count_def index_count_def
      index_values_def)

text \<open>
  Claim C9. When one of the geometries handed to the merge has no position attribute, the
  call does not return a buffer: it ends in the \<^verbatim>\<open>TypeError\<close> thrown to the caller.
\<close>

theorem merge_missing_position_fails:
  assumes "g \<in> set gs" and "position g = None"
  shows "mergeGeometries gs = Inl TypeError"
proof -
  from assms(1) have "gs \<noteq> []" by auto
  moreover have "count_totals gs 0 0 = Inl TypeError"
    using assms by (rule count_totals_missing_position)
  ultimately show ?thesis by (simp add: mergeGeometries_def)
qed

theorem merge_missing_position_fails_witness:
  "mergeGeometries
     [\<lparr>position = Some (BufferAttribute_new [0, 0, 0] 3), normal = None, uv = None, index = None\<rparr>,
      \<lparr>position = None, normal = Some (BufferAttribute_new [0, 1, 0] 3), uv = None,
       index = Some (BufferAttribute_new [0] 1)\<rparr>] = Inl TypeError"
  using merge_missing_position_fails
    [of "\<lparr>position = None, normal = Some (BufferAttribute_new [0, 1, 0] 3), uv = None,
          index = Some (BufferAttribute_new [0] 1)\<rparr>"
        "[\<lparr>position = Some (BufferAttribute_new [0, 0, 0] 3), normal = None, uv = None, index = None\<rparr>,
          \<lparr>position = None, normal = Some (BufferAttribute_new [0, 1, 0] 3), uv = None,
           index = Some (BufferAttribute_new [0] 1)\<rparr>]"]
  by simp

lemma sum_emitted_lengths:
  "\<forall>g\<in>set gs. attributes_fit g \<Longrightarrow>
   length (indices_from vo gs) = sum_list (map emitted_index_count gs)"
  by (induction gs arbitrary: vo) (simp_all add: length_indices_of)

lemma length_concat_positions:
  "\<forall>g\<in>set gs. attributes_fit g \<Longrightarrow>
   length (concat (map positions_of gs)) = 3 * sum_list (map vertex_count gs)"
  by (induction gs) (simp_all add: length_positions_of)

lemma length_concat_normals:
  "\<forall>g\<in>set gs. attributes_fit g \<Longrightarrow>
   length (concat (map normals_of gs)) = 3 * sum_list (map vertex_count gs)"
  by (induction gs) (simp_all add: length_normals_of)

lemma length_concat_uvs:
  "\<forall>g\<in>set gs. attributes_fit g \<Longrightarrow>
   length (concat (map uvs_of gs)) = 2 * sum_list (map vertex_count gs)"
  by (induction gs) (simp_all add: length_uvs_of)

lemma indices_of_bound:
  assumes "indices_in_range g" "i \<in> set (indices_of vo g)"
  shows "i < vo + vertex_count g"
proof (cases "index g")
  case None
  with assms(2) obtain k where "k < vertex_count g" "i = (k + vo) mod 4294967296"
    by (auto simp: indices_of_def)
  moreover have "(k + vo) mod 4294967296 \<le> k + vo" by simp
  ultimately show ?thesis by linarith
next
  case (Some idx)
  with assms(2) obtain v where v: "v \<in> set (array idx)" "i = (v + vo) mod 4294967296"
    by (auto simp: indices_of_def)
  from assms(1) Some v(1) have "v < vertex_count g"
    by (simp add: indices_in_range_def index_values_def list_all_iff)
  moreover have "(v + vo) mod 4294967296 \<le> v + vo" by simp
  ultimately show ?thesis using v(2) by linarith
qed

lemma indices_from_bound:
  "\<forall>g\<in>set gs. indices_in_range g \<Longrightarrow> i \<in> set (indices_from vo gs)
   \<Longrightarrow> i < vo + sum_list (map vertex_count gs)"
proof (induction gs arbitrary: vo)
  case Nil
  then show ?case by simp
next
  case (Cons g gs)
  from Cons.prems(2) consider "i \<in> set (indices_of vo g)"
    | "i \<in> set (indices_from (vo + vertex_count g) gs)" by auto
  then show ?case
  proof cases
    case 1
    with Cons.prems(1) have "i < vo + vertex_count g" by (simp add: indices_of_bound)
    then show ?thesis by simp
  next
    case 2
    with Cons.IH [of "vo + vertex_count g"] Cons.prems(1) show ?thesis by simp
  qed
qed

text \<open>
  Claim C1. For every sequence of mesh buffers, each with a position attribute, the merge
  returns a buffer whose vertex count is the sum of the inputs' vertex counts, and every
  entry \<open>i\<close> of whose index array satisfies \<open>0 \<le> i\<close> and \<open>i\<close> below that sum.
\<close>

theorem merge_vertex_count_and_index_range:
  assumes "\<forall>g\<in>set gs. mesh_buffer g"
  shows "\<exists>m. mergeGeometries gs = Inr m
            \<and> vertex_count m = sum_list (map vertex_count gs)
            \<and> (\<forall>i\<in>set (index_values m). 0 \<le> i \<and> i < sum_list (map vertex_count gs))"
proof (cases "gs = []")
  case True
  then show ?thesis
    by (simp add: mergeGeometries_def BufferGeometry_new_def vertex_count_def index_values_def)
next
  case False
  from assms have fit: "\<forall>g\<in>set gs. attributes_fit g"
    and rng: "\<forall>g\<in>set gs. indices_in_range g"
    by (simp_all add: mesh_buffer_def)
  let ?m = "\<lparr>position = Some (BufferAttribute_new (concat (map positions_of gs)) 3),
             normal = Some (BufferAttribute_new (concat (map normals_of gs)) 3),
             uv = Some (BufferAttribute_new (concat (map uvs_of gs)) 2),
             index = Some (BufferAttribute_new (indices_from 0 gs) 1)\<rparr>"
  have "mergeGeometries gs = Inr ?m"
    using False fit by (rule mergeGeometries_fit)
  moreover have "vertex_count ?m = sum_list (map vertex_count gs)"
    using fit by (simp add: vertex_count_def BufferAttribute_new_def length_concat_positions)
  moreover have "\<forall>i\<in>set (index_values ?m). 0 \<le> i \<and> i < sum_list (map vertex_count gs)"
    using indices_from_bound [OF rng, of _ 0]
    by (simp add: index_values_def BufferAttribute_new_def)
  ultimately show ?thesis by blast
qed

theorem merge_vertex_count_and_index_range_witness:
  "mesh_buffer quad \<and> mesh_buffer triangle
   \<and> (\<exists>m. mergeGeometries [quad, triangle] = Inr m
          \<and> vertex_count m = 7
          \<and> (\<forall>i\<in>set (index_values m). 0 \<le> i \<and> i < 7))"
proof -
  have q: "mesh_buffer quad"
    by (simp add: mesh_buffer_def attributes_fit_def indices_in_range_def quad_def
        BufferAttribute_new_def vertex_count_def index_values_def)
  have t: "mesh_buffer triangle"
    by (simp add: mesh_buffer_def attributes_fit_def indices_in_range_def triangle_def
        BufferAttribute_new_def vertex_count_def index_values_def)
  from q t have h: "\<forall>g\<in>set [quad, triangle]. mesh_buffer g" by simp
  have s: "sum_list (map vertex_count [quad, triangle]) = 7"
    by (simp add: quad_def triangle_def BufferAttribute_new_def vertex_count_def)
  show ?thesis
    using q t merge_vertex_count_and_index_range [OF h] unfolding s by blast
qed

text \<open>
  Claim C2. For a first input G1 of 4 vertices with an index of 6 entries and a second input
  G2 of 3 vertices without an index, the merge of G1 and G2 returns a buffer of 7 vertices
  and 9 indices: the first 6 are G1's indices as they are (vertex offset 0), the last 3 are
  4, 5, 6, the run 0, 1, 2 moved by G1's vertex count.
\<close>

theorem merge_indexed_then_plain:
  assumes "mesh_buffer G1" and "mesh_buffer G2"
    and "vertex_count G1 = 4" and "index G1 = Some idx" and "count idx = 6"
    and "vertex_count G2 = 3" and "index G2 = None"
  shows "\<exists>m. mergeGeometries [G1, G2] = Inr m
            \<and> vertex_count m = 7 \<and> index_count m = 9
            \<and> take 6 (index_values m) = array idx
            \<and> drop 6 (index_values m) = [4, 5, 6]"
proof -
  from assms(1,2) have fit: "\<forall>g\<in>set [G1, G2]. attributes_fit g"
    by (simp add: mesh_buffer_def)
  let ?m = "\<lparr>position = Some (BufferAttribute_new (concat (map positions_of [G1, G2])) 3),
             normal = Some (BufferAttribute_new (concat (map normals_of [G1, G2])) 3),
             uv = Some (BufferAttribute_new (concat (map uvs_of [G1, G2])) 2),
             index = Some (BufferAttribute_new (indices_from 0 [G1, G2]) 1)\<rparr>"
  have m: "mergeGeometries [G1, G2] = Inr ?m"
    using fit by (intro mergeGeometries_fit) simp_all
  have len: "length (array idx) = 6"
    using assms(1,4,5) attributes_fit_index [of G1 idx] by (simp add: mesh_buffer_def)
  have "\<forall>v\<in>set (array idx). v < 4"
    using assms(1,3,4)
    by (simp add: mesh_buffer_def indices_in_range_def index_values_def list_all_iff)
  then have "map (\<lambda>v. (v + 0) mod 4294967296) (array idx) = array idx"
    by (intro map_idI) fastforce
  then have first: "indices_of 0 G1 = array idx"
    by (simp add: indices_of_def assms(4))
  have upt3: "[0..<3] = [0, 1, 2::nat]"
    by (simp add: upt_rec)
  have last: "indices_of 4 G2 = [4, 5, 6]"
    by (simp add: indices_of_def assms(6,7) upt3)
  have ix: "index_values ?m = array idx @ [4, 5, 6]"
    by (simp add: index_values_def BufferAttribute_new_def assms(3) first last)
  have "length (concat (map positions_of [G1, G2])) = 21"
    using length_concat_positions [OF fit] by (simp add: assms(3,6))
  then have "vertex_count ?m = 7"
    by (simp add: vertex_count_def BufferAttribute_new_def)
  moreover have "index_count ?m = 9"
    using ix len by (simp add: index_count_def index_values_def BufferAttribute_new_def)
  moreover have "take 6 (index_values ?m) = array idx"
    unfolding ix using len by simp
  moreover have "drop 6 (index_values ?m) = [4, 5, 6]"
    unfolding ix using len by simp
  ultimately show ?thesis using m by blast
qed

theorem merge_indexed_then_plain_witness:
  "mesh_buffer quad \<and> mesh_buffer triangle
   \<and> vertex_count quad = 4 \<and> index quad = Some (BufferAttribute_new [0, 1, 2, 0, 2, 3] 1)
   \<and> count (BufferAttribute_new [0, 1, 2, 0, 2, 3 :: nat] 1) = 6
   \<and> vertex_count triangle = 3 \<and> index triangle = None
   \<and> (\<exists>m. mergeGeometries [quad, triangle] = Inr m
          \<and> vertex_count m = 7 \<and> index_count m = 9
          \<and> take 6 (index_values m) = [0, 1, 2, 0, 2, 3]
          \<and> drop 6 (index_values m) = [4, 5, 6])"
proof -
  have h1: "mesh_buffer quad"
    by (simp add: mesh_buffer_def attributes_fit_def indices_in_range_def quad_def
        BufferAttribute_new_def vertex_count_def index_values_def)
  have h2: "mesh_buffer triangle"
    by (simp add: mesh_buffer_def attributes_fit_def indices_in_range_def triangle_def
        BufferAttribute_new_def vertex_count_def index_values_def)
  have h3: "vertex_count quad = 4"
    by (simp add: quad_def BufferAttribute_new_def vertex_count_def)
  have h4: "index quad = Some (BufferAttribute_new [0, 1, 2, 0, 2, 3] 1)"
    by (simp add: quad_def)
  have h5: "count (BufferAttribute_new [0, 1, 2, 0, 2, 3 :: nat] 1) = 6"
    by (simp add: BufferAttribute_new_def)
  have h6: "vertex_count triangle = 3"
    by (simp add: triangle_def BufferAttribute_new_def vertex_count_def)
  have h7: "index triangle = None"
    by (simp add: triangle_def)
  have a: "array (BufferAttribute_new [0, 1, 2, 0, 2, 3 :: nat] 1) = [0, 1, 2, 0, 2, 3]"
    by (simp add: BufferAttribute_new_def)
  show ?thesis
    using h1 h2 h3 h4 h5 h6 h7 merge_indexed_then_plain [OF h1 h2 h3 h4 h5 h6 h7]
    unfolding a by blast
qed

lemma stretch_middle:
  "length A = w * off \<Longrightarrow> length B = w * n \<Longrightarrow> stretch w off n (A @ B @ C) = B"
  by (simp add: stretch_def)

lemma drop_concat_replicate:
  "k \<le> n \<Longrightarrow> drop (length xs * k) (concat (replicate n xs)) = concat (replicate (n - k) xs)"
proof (induction k arbitrary: n)
  case 0
  then show ?case by simp
next
  case (Suc k)
  then obtain n' where n: "n = Suc n'" and k: "k \<le> n'" by (cases n) auto
  have "drop (length xs * Suc k) (concat (replicate n xs))
        = drop (length xs + length xs * k) (xs @ concat (replicate n' xs))"
    unfolding n by simp
  also have "\<dots> = drop (length xs * k) (concat (replicate n' xs))"
    by (simp only: drop_append drop_all [OF le_add1] diff_add_inverse append_Nil)
  also have "\<dots> = concat (replicate (n' - k) xs)"
    using k by (rule Suc.IH)
  finally show ?case unfolding n by simp
qed

lemma stretch_concat_replicate:
  assumes "k < n"
  shows "stretch (length xs) k 1 (concat (replicate n xs)) = xs"
proof -
  from assms obtain d where d: "n - k = Suc d" by (cases "n - k") auto
  have "drop (length xs * k) (concat (replicate n xs)) = concat (replicate (n - k) xs)"
    using assms by (intro drop_concat_replicate) simp
  then show ?thesis by (simp add: stretch_def d)
qed

lemma stretch_stretch:
  assumes "k < n"
  shows "stretch w k 1 (stretch w off n arr) = stretch w (off + k) 1 arr"
proof -
  have "w * Suc k \<le> w * n"
    using assms by (intro mult_le_mono2) simp
  then have le: "w \<le> w * n - w * k" by simp
  have "stretch w k 1 (stretch w off n arr)
        = take w (drop (w * k) (take (w * n) (drop (w * off) arr)))"
    by (simp add: stretch_def)
  also have "\<dots> = take w (take (w * n - w * k) (drop (w * k) (drop (w * off) arr)))"
    by (simp only: drop_take)
  also have "\<dots> = take w (drop (w * k + w * off) arr)"
    using le by (simp only: take_take drop_drop min_absorb1)
  also have "\<dots> = stretch w (off + k) 1 arr"
    by (simp add: stretch_def add_mult_distrib2 add.commute)
  finally show ?thesis .
qed

lemma stretch_default_normal:
  "k < n \<Longrightarrow> stretch 3 k 1 (concat (replicate n [0, 1, 0::real])) = [0, 1, 0]"
proof -
  assume "k < n"
  then have "stretch (length [0, 1, 0::real]) k 1 (concat (replicate n [0, 1, 0::real])) = [0, 1, 0]"
    by (rule stretch_concat_replicate)
  moreover have "length [0, 1, 0::real] = 3" by simp
  ultimately show ?thesis by (simp only:)
qed

lemma stretch_zero_uv:
  assumes "k < n"
  shows "stretch 2 k 1 (replicate (2 * n) (0::real)) = [0, 0]"
proof -
  have r: "replicate (2 * n) (0::real) = concat (replicate n [0, 0])"
    by (induction n) simp_all
  have "stretch (length [0, 0::real]) k 1 (concat (replicate n [0, 0::real])) = [0, 0]"
    using assms by (rule stretch_concat_replicate)
  moreover have "length [0, 0::real] = 2" by simp
  ultimately show ?thesis by (simp only: r)
qed

text \<open>
  Claim C3. In the merged output, every vertex of an input without normals has the normal
  (0, 1, 0), and every vertex of an input without texture coordinates has the uv (0, 0);
  the normals and uvs of an input that has them stand in the output as they are. The input
  \<open>g\<close> sits anywhere in the sequence, behind the inputs \<open>pre\<close>, whose vertices come
  first.
\<close>

theorem merge_default_normals_and_zero_uvs:
  assumes "\<forall>h\<in>set (pre @ g # post). attributes_fit h"
  shows "\<exists>m nrm u. mergeGeometries (pre @ g # post) = Inr m
            \<and> normal m = Some nrm \<and> uv m = Some u
            \<and> (normal g = None \<longrightarrow>
                 (\<forall>k<vertex_count g.
                    stretch 3 (sum_list (map vertex_count pre) + k) 1 (array nrm) = [0, 1, 0]))
            \<and> (uv g = None \<longrightarrow>
                 (\<forall>k<vertex_count g.
                    stretch 2 (sum_list (map vertex_count pre) + k) 1 (array u) = [0, 0]))
            \<and> (\<forall>a. normal g = Some a \<longrightarrow>
                 stretch 3 (sum_list (map vertex_count pre)) (vertex_count g) (array nrm) = array a)
            \<and> (\<forall>a. uv g = Some a \<longrightarrow>
                 stretch 2 (sum_list (map vertex_count pre)) (vertex_count g) (array u) = array a)"
proof -
  let ?gs = "pre @ g # post" and ?off = "sum_list (map vertex_count pre)"
  let ?N = "concat (map normals_of ?gs)" and ?U = "concat (map uvs_of ?gs)"
  let ?m = "\<lparr>position = Some (BufferAttribute_new (concat (map positions_of ?gs)) 3),
             normal = Some (BufferAttribute_new ?N 3),
             uv = Some (BufferAttribute_new ?U 2),
             index = Some (BufferAttribute_new (indices_from 0 ?gs) 1)\<rparr>"
  from assms have fit: "attributes_fit g" and fpre: "\<forall>h\<in>set pre. attributes_fit h"
    by simp_all
  have m: "mergeGeometries ?gs = Inr ?m"
    using assms by (intro mergeGeometries_fit) simp_all
  have N: "stretch 3 ?off (vertex_count g) ?N = normals_of g"
    using length_concat_normals [OF fpre] length_normals_of [OF fit]
    by (simp add: stretch_middle)
  have U: "stretch 2 ?off (vertex_count g) ?U = uvs_of g"
    using length_concat_uvs [OF fpre] length_uvs_of [OF fit]
    by (simp add: stretch_middle)
  have dn: "stretch 3 (?off + k) 1 ?N = [0, 1, 0]"
    if "normal g = None" "k < vertex_count g" for k
  proof -
    have "stretch 3 (?off + k) 1 ?N = stretch 3 k 1 (stretch 3 ?off (vertex_count g) ?N)"
      using that(2) by (rule stretch_stretch [symmetric])
    also have "\<dots> = stretch 3 k 1 (concat (replicate (vertex_count g) [0, 1, 0]))"
      unfolding N by (simp add: normals_of_def that(1))
    also have "\<dots> = [0, 1, 0]"
      using that(2) by (rule stretch_default_normal)
    finally show ?thesis .
  qed
  have du: "stretch 2 (?off + k) 1 ?U = [0, 0]"
    if "uv g = None" "k < vertex_count g" for k
  proof -
    have "stretch 2 (?off + k) 1 ?U = stretch 2 k 1 (stretch 2 ?off (vertex_count g) ?U)"
      using that(2) by (rule stretch_stretch [symmetric])
    also have "\<dots> = stretch 2 k 1 (replicate (2 * vertex_count g) 0)"
      unfolding U by (simp add: uvs_of_def that(1))
    also have "\<dots> = [0, 0]"
      using that(2) by (rule stretch_zero_uv)
    finally show ?thesis .
  qed
  have cn: "stretch 3 ?off (vertex_count g) ?N = array a" if "normal g = Some a" for a
    unfolding N by (simp add: normals_of_def that)
  have cu: "stretch 2 ?off (vertex_count g) ?U = array a" if "uv g = Some a" for a
    unfolding U by (simp add: uvs_of_def that)
  let ?nrm = "BufferAttribute_new ?N 3" and ?u = "BufferAttribute_new ?U 2"
  have aN: "array ?nrm = ?N" and aU: "array ?u = ?U"
    by (simp_all add: BufferAttribute_new_def)
  show ?thesis
  proof (rule exI [of _ ?m], rule exI [of _ ?nrm], rule exI [of _ ?u], intro conjI impI allI)
    show "mergeGeometries ?gs = Inr ?m" by (rule m)
  next
    show "normal ?m = Some ?nrm" by simp
  next
    show "uv ?m = Some ?u" by simp
  next
    fix k assume "normal g = None" "k < vertex_count g"
    then show "stretch 3 (?off + k) 1 (array ?nrm) = [0, 1, 0]"
      unfolding aN by (rule dn)
  next
    fix k assume "uv g = None" "k < vertex_count g"
    then show "stretch 2 (?off + k) 1 (array ?u) = [0, 0]"
      unfolding aU by (rule du)
  next
    fix a assume "normal g = Some a"
    then show "stretch 3 ?off (vertex_count g) (array ?nrm) = array a"
      unfolding aN by (rule cn)
  next
    fix a assume "uv g = Some a"
    then show "stretch 2 ?off (vertex_count g) (array ?u) = array a"
      unfolding aU by (rule cu)
  qed
qed

theorem merge_default_normals_and_zero_uvs_witness:
  "attributes_fit quad \<and> attributes_fit triangle
   \<and> normal triangle = None \<and> uv triangle = None \<and> 1 < vertex_count triangle
   \<and> (\<exists>m nrm u. mergeGeometries [quad, triangle] = Inr m
          \<and> normal m = Some nrm \<and> uv m = Some u
          \<and> stretch 3 5 1 (array nrm) = [0, 1, 0]
          \<and> stretch 2 5 1 (array u) = [0, 0])
   \<and> normal quad = Some (BufferAttribute_new [0, 0, 1, 0, 0, 1, 0, 0, 1, 0, 0, 1] 3)
   \<and> uv quad = Some (BufferAttribute_new [0, 0, 1, 0, 1, 1, 0, 1] 2)
   \<and> (\<exists>m nrm u. mergeGeometries [quad, triangle] = Inr m
          \<and> normal m = Some nrm \<and> uv m = Some u
          \<and> stretch 3 0 4 (array nrm) = [0, 0, 1, 0, 0, 1, 0, 0, 1, 0, 0, 1]
          \<and> stretch 2 0 4 (array u) = [0, 0, 1, 0, 1, 1, 0, 1])"
proof -
  have fit: "\<forall>h\<in>set [quad, triangle]. attributes_fit h"
    by (simp add: attributes_fit_def quad_def triangle_def BufferAttribute_new_def)
  have t: "normal triangle = None" "uv triangle = None" "vertex_count triangle = 3"
    by (simp_all add: triangle_def vertex_count_def BufferAttribute_new_def)
  have q: "normal quad = Some (BufferAttribute_new [0, 0, 1, 0, 0, 1, 0, 0, 1, 0, 0, 1] 3)"
    "uv quad = Some (BufferAttribute_new [0, 0, 1, 0, 1, 1, 0, 1] 2)" "vertex_count quad = 4"
    by (simp_all add: quad_def vertex_count_def BufferAttribute_new_def)
  have a: "array (BufferAttribute_new [0, 0, 1, 0, 0, 1, 0, 0, 1, 0, 0, 1 :: real] 3)
           = [0, 0, 1, 0, 0, 1, 0, 0, 1, 0, 0, 1]"
    "array (BufferAttribute_new [0, 0, 1, 0, 1, 1, 0, 1 :: real] 2) = [0, 0, 1, 0, 1, 1, 0, 1]"
    by (simp_all add: BufferAttribute_new_def)
  have pre: "sum_list (map vertex_count [quad]) = 4" "sum_list (map vertex_count []) = 0"
    by (simp_all add: q(3))
  have fit1: "\<forall>h\<in>set ([quad] @ triangle # []). attributes_fit h"
    and fit2: "\<forall>h\<in>set ([] @ quad # [triangle]). attributes_fit h"
    using fit by simp_all
  have first: "\<exists>m nrm u. mergeGeometries [quad, triangle] = Inr m
          \<and> normal m = Some nrm \<and> uv m = Some u
          \<and> stretch 3 5 1 (array nrm) = [0, 1, 0]
          \<and> stretch 2 5 1 (array u) = [0, 0]"
  proof -
    from merge_default_normals_and_zero_uvs [OF fit1]
    obtain m nrm u where m: "mergeGeometries ([quad] @ triangle # []) = Inr m"
      "normal m = Some nrm" "uv m = Some u"
      and dn: "normal triangle = None \<longrightarrow>
                 (\<forall>k<vertex_count triangle.
                    stretch 3 (sum_list (map vertex_count [quad]) + k) 1 (array nrm) = [0, 1, 0])"
      and du: "uv triangle = None \<longrightarrow>
                 (\<forall>k<vertex_count triangle.
                    stretch 2 (sum_list (map vertex_count [quad]) + k) 1 (array u) = [0, 0])"
      by (elim exE conjE) (rule that)
    have k: "1 < vertex_count triangle" using t(3) by simp
    from dn t(1) k
    have "stretch 3 (sum_list (map vertex_count [quad]) + 1) 1 (array nrm) = [0, 1, 0]"
      by blast
    then have n5: "stretch 3 5 1 (array nrm) = [0, 1, 0]"
      unfolding pre by simp
    from du t(2) k
    have "stretch 2 (sum_list (map vertex_count [quad]) + 1) 1 (array u) = [0, 0]"
      by blast
    then have u5: "stretch 2 5 1 (array u) = [0, 0]"
      unfolding pre by simp
    show ?thesis using m n5 u5 by simp
  qed
  have second: "\<exists>m nrm u. mergeGeometries [quad, triangle] = Inr m
          \<and> normal m = Some nrm \<and> uv m = Some u
          \<and> stretch 3 0 4 (array nrm) = [0, 0, 1, 0, 0, 1, 0, 0, 1, 0, 0, 1]
          \<and> stretch 2 0 4 (array u) = [0, 0, 1, 0, 1, 1, 0, 1]"
  proof -
    from merge_default_normals_and_zero_uvs [OF fit2]
    obtain m nrm u where m: "mergeGeometries ([] @ quad # [triangle]) = Inr m"
      "normal m = Some nrm" "uv m = Some u"
      and cn: "\<forall>a. normal quad = Some a \<longrightarrow>
                 stretch 3 (sum_list (map vertex_count [])) (vertex_count quad) (array nrm) = array a"
      and cu: "\<forall>a. uv quad = Some a \<longrightarrow>
                 stretch 2 (sum_list (map vertex_count [])) (vertex_count quad) (array u) = array a"
      by (elim exE conjE) (rule that)
    from cn q(1)
    have "stretch 3 (sum_list (map vertex_count [])) (vertex_count quad) (array nrm)
          = array (BufferAttribute_new [0, 0, 1, 0, 0, 1, 0, 0, 1, 0, 0, 1] 3)"
      by blast
    then have n0: "stretch 3 0 4 (array nrm) = [0, 0, 1, 0, 0, 1, 0, 0, 1, 0, 0, 1]"
      unfolding pre q(3) a(1) .
    from cu q(2)
    have "stretch 2 (sum_list (map vertex_count [])) (vertex_count quad) (array u)
          = array (BufferAttribute_new [0, 0, 1, 0, 1, 1, 0, 1] 2)"
      by blast
    then have u0: "stretch 2 0 4 (array u) = [0, 0, 1, 0, 1, 1, 0, 1]"
      unfolding pre q(3) a(2) .
    show ?thesis using m n0 u0 by simp
  qed
  from fit have "attributes_fit quad" "attributes_fit triangle" by simp_all
  then show ?thesis
    using t(1,2) q(1,2) first second by (simp add: t(3))
qed

lemma triangle_shaped_emitted: "triangle_shaped g \<longleftrightarrow> 3 dvd emitted_index_count g"
  by (cases "index g") (simp_all add: triangle_shaped_def emitted_index_count_def)

lemma dvd_sum_emitted:
  "\<forall>g\<in>set gs. triangle_shaped g \<Longrightarrow> 3 dvd sum_list (map emitted_index_count gs)"
  by (induction gs) (simp_all add: triangle_shaped_emitted)

lemma merged_index_count:
  assumes "\<forall>g\<in>set gs. attributes_fit g"
  shows "\<exists>m. mergeGeometries gs = Inr m
            \<and> index_count m = sum_list (map emitted_index_count gs)"
proof (cases "gs = []")
  case True
  then show ?thesis
    by (simp add: mergeGeometries_def BufferGeometry_new_def index_count_def)
next
  case False
  then have "mergeGeometries gs
      = Inr \<lparr>position = Some (BufferAttribute_new (concat (map positions_of gs)) 3),
             normal = Some (BufferAttribute_new (concat (map normals_of gs)) 3),
             uv = Some (BufferAttribute_new (concat (map uvs_of gs)) 2),
             index = Some (BufferAttribute_new (indices_from 0 gs) 1)\<rparr>"
    using assms by (rule mergeGeometries_fit)
  then show ?thesis
    using sum_emitted_lengths [OF assms, of 0]
    by (simp add: index_count_def BufferAttribute_new_def)
qed

text \<open>
  Claim C10, as stated: an input without an index whose vertex count is not a multiple of 3
  gives an output whose index count is not a multiple of 3. This does not hold for every
  sequence of inputs: merged together, a single vertex and a pair of vertices, neither of
  them indexed, give the index list 0, 1, 2, whose count 3 is a multiple of 3.
\<close>

theorem merge_offending_inputs_cancel:
  "index lone_vertex = None \<and> \<not> 3 dvd vertex_count lone_vertex
   \<and> index vertex_pair = None \<and> \<not> 3 dvd vertex_count vertex_pair
   \<and> mergeGeometries [lone_vertex, vertex_pair]
       = Inr \<lparr>position = Some \<lparr>array = [5, 0, 0, 6, 0, 0, 7, 0, 0], itemSize = 3, count = 3\<rparr>,
              normal = Some \<lparr>array = [0, 1, 0, 0, 1, 0, 0, 1, 0], itemSize = 3, count = 3\<rparr>,
              uv = Some \<lparr>array = [0, 0, 0, 0, 0, 0], itemSize = 2, count = 3\<rparr>,
              index = Some \<lparr>array = [0, 1, 2], itemSize = 1, count = 3\<rparr>\<rparr>
   \<and> 3 dvd index_count
       \<lparr>position = Some \<lparr>array = [5, 0, 0, 6, 0, 0, 7, 0, 0], itemSize = 3, count = 3\<rparr>,
        normal = Some \<lparr>array = [0, 1, 0, 0, 1, 0, 0, 1, 0], itemSize = 3, count = 3\<rparr>,
        uv = Some \<lparr>array = [0, 0, 0, 0, 0, 0], itemSize = 2, count = 3\<rparr>,
        index = Some \<lparr>array = [0, 1, 2], itemSize = 1, count = 3\<rparr>\<rparr>"
proof -
  have v: "vertex_count lone_vertex = 1" "vertex_count vertex_pair = 2"
    by (simp_all add: lone_vertex_def vertex_pair_def vertex_count_def BufferAttribute_new_def)
  have i: "index lone_vertex = None" "index vertex_pair = None"
    by (simp_all add: lone_vertex_def vertex_pair_def)
  have n: "\<not> 3 dvd vertex_count lone_vertex" "\<not> 3 dvd vertex_count vertex_pair"
    unfolding v by simp_all
  have fit: "\<forall>g\<in>set [lone_vertex, vertex_pair]. attributes_fit g"
    by (simp add: attributes_fit_def lone_vertex_def vertex_pair_def BufferAttribute_new_def)
  have P: "concat (map positions_of [lone_vertex, vertex_pair]) = [5, 0, 0, 6, 0, 0, 7, 0, 0]"
    by (simp add: positions_of_def lone_vertex_def vertex_pair_def BufferAttribute_new_def)
  have nu: "normal lone_vertex = None" "normal vertex_pair = None"
    "uv lone_vertex = None" "uv vertex_pair = None"
    by (simp_all add: lone_vertex_def vertex_pair_def)
  have N1: "normals_of lone_vertex = [0, 1, 0]"
    by (simp add: normals_of_def nu v)
  have N2: "normals_of vertex_pair = [0, 1, 0, 0, 1, 0]"
    by (simp add: normals_of_def nu v numeral_2_eq_2)
  have N: "concat (map normals_of [lone_vertex, vertex_pair]) = [0, 1, 0, 0, 1, 0, 0, 1, 0]"
    by (simp add: N1 N2)
  have U1: "uvs_of lone_vertex = [0, 0]"
    by (simp add: uvs_of_def nu v numeral_2_eq_2)
  have "replicate (2 * 2) (0::real) = [0, 0, 0, 0]"
    by (simp add: numeral_eq_Suc)
  then have U2: "uvs_of vertex_pair = [0, 0, 0, 0]"
    by (simp add: uvs_of_def nu v)
  have U: "concat (map uvs_of [lone_vertex, vertex_pair]) = [0, 0, 0, 0, 0, 0]"
    by (simp add: U1 U2)
  have upt2: "[0..<2] = [0, 1::nat]" by (simp add: upt_rec)
  have X: "indices_from 0 [lone_vertex, vertex_pair] = [0, 1, 2]"
    by (simp add: indices_of_def i v upt2)
  have "mergeGeometries [lone_vertex, vertex_pair]
        = Inr \<lparr>position = Some (BufferAttribute_new [5, 0, 0, 6, 0, 0, 7, 0, 0] 3),
               normal = Some (BufferAttribute_new [0, 1, 0, 0, 1, 0, 0, 1, 0] 3),
               uv = Some (BufferAttribute_new [0, 0, 0, 0, 0, 0] 2),
               index = Some (BufferAttribute_new [0, 1, 2] 1)\<rparr>"
    using mergeGeometries_fit [OF _ fit] unfolding P N U X by simp
  then have m: "mergeGeometries [lone_vertex, vertex_pair]
       = Inr \<lparr>position = Some \<lparr>array = [5, 0, 0, 6, 0, 0, 7, 0, 0], itemSize = 3, count = 3\<rparr>,
              normal = Some \<lparr>array = [0, 1, 0, 0, 1, 0, 0, 1, 0], itemSize = 3, count = 3\<rparr>,
              uv = Some \<lparr>array = [0, 0, 0, 0, 0, 0], itemSize = 2, count = 3\<rparr>,
              index = Some \<lparr>array = [0, 1, 2], itemSize = 1, count = 3\<rparr>\<rparr>"
    by (simp add: BufferAttribute_new_def)
  have d: "3 dvd index_count
       \<lparr>position = Some \<lparr>array = [5, 0, 0, 6, 0, 0, 7, 0, 0], itemSize = 3, count = 3\<rparr>,
        normal = Some \<lparr>array = [0, 1, 0, 0, 1, 0, 0, 1, 0], itemSize = 3, count = 3\<rparr>,
        uv = Some \<lparr>array = [0, 0, 0, 0, 0, 0], itemSize = 2, count = 3\<rparr>,
        index = Some \<lparr>array = [0, 1, 2], itemSize = 1, count = 3\<rparr>\<rparr>"
    by (simp add: index_count_def)
  show ?thesis using i n m d by (intro conjI)
qed

text \<open>
  Claim C10, amended. When every indexed input has an index count that is a multiple of 3
  and every input without an index has a vertex count that is a multiple of 3, the index
  count of the merged output is a multiple of 3. The merge checks nothing itself: an input
  without an index whose vertex count is not a multiple of 3, merged with inputs that all
  satisfy that condition, gives an output whose index count is not a multiple of 3.
\<close>

theorem merge_index_count_triples:
  assumes "\<forall>g\<in>set gs. attributes_fit g"
  shows "\<exists>m. mergeGeometries gs = Inr m
            \<and> ((\<forall>g\<in>set gs. triangle_shaped g) \<longrightarrow> 3 dvd index_count m)
            \<and> (\<forall>pre g post.
                  gs = pre @ g # post \<and> index g = None \<and> \<not> 3 dvd vertex_count g
                  \<and> (\<forall>h\<in>set (pre @ post). triangle_shaped h)
                  \<longrightarrow> \<not> 3 dvd index_count m)"
proof -
  from merged_index_count [OF assms]
  obtain m where m: "mergeGeometries gs = Inr m"
    and ic: "index_count m = sum_list (map emitted_index_count gs)"
    by blast
  have keep: "3 dvd index_count m" if "\<forall>g\<in>set gs. triangle_shaped g"
    unfolding ic using that by (rule dvd_sum_emitted)
  have break: "\<not> 3 dvd index_count m"
    if gs: "gs = pre @ g # post" and g: "index g = None" "\<not> 3 dvd vertex_count g"
      and rest: "\<forall>h\<in>set (pre @ post). triangle_shaped h"
    for pre g post
  proof -
    have "3 dvd sum_list (map emitted_index_count (pre @ post))"
      using rest by (rule dvd_sum_emitted)
    moreover have "index_count m
        = sum_list (map emitted_index_count (pre @ post)) + vertex_count g"
      unfolding ic gs using g(1) by (simp add: emitted_index_count_def)
    ultimately show ?thesis
      using g(2) by (simp add: dvd_add_right_iff)
  qed
  show ?thesis
  proof (intro exI [of _ m] conjI impI allI)
    show "mergeGeometries gs = Inr m" by (rule m)
  next
    assume "\<forall>g\<in>set gs. triangle_shaped g"
    then show "3 dvd index_count m" by (rule keep)
  next
    fix pre g post
    assume "gs = pre @ g # post \<and> index g = None \<and> \<not> 3 dvd vertex_count g
            \<and> (\<forall>h\<in>set (pre @ post). triangle_shaped h)"
    then show "\<not> 3 dvd index_count m" using break by blast
  qed
qed

theorem merge_index_count_triples_witness:
  "attributes_fit quad \<and> attributes_fit triangle
   \<and> triangle_shaped quad \<and> triangle_shaped triangle
   \<and> (\<exists>m. mergeGeometries [quad, triangle] = Inr m \<and> 3 dvd index_count m)
   \<and> attributes_fit (quad\<lparr>index := None\<rparr>)
   \<and> index (quad\<lparr>index := None\<rparr>) = None \<and> \<not> 3 dvd vertex_count (quad\<lparr>index := None\<rparr>)
   \<and> (\<exists>m. mergeGeometries [quad, quad\<lparr>index := None\<rparr>] = Inr m \<and> \<not> 3 dvd index_count m)"
proof -
  have fit1: "\<forall>g\<in>set [quad, triangle]. attributes_fit g"
    by (simp add: attributes_fit_def quad_def triangle_def BufferAttribute_new_def)
  have "count (BufferAttribute_new [0, 1, 2, 0, 2, 3 :: nat] 1) = 3 * 2"
    and "count (BufferAttribute_new [2, 0, 0, 3, 0, 0, 2, 1, 0 :: real] 3) = 3 * 1"
    by (simp_all add: BufferAttribute_new_def)
  then have tri1: "\<forall>g\<in>set [quad, triangle]. triangle_shaped g"
    by (simp add: triangle_shaped_def quad_def triangle_def vertex_count_def)
  have fit2: "\<forall>g\<in>set [quad, quad\<lparr>index := None\<rparr>]. attributes_fit g"
    by (simp add: attributes_fit_def quad_def BufferAttribute_new_def)
  have bare: "index (quad\<lparr>index := None\<rparr>) = None" "\<not> 3 dvd vertex_count (quad\<lparr>index := None\<rparr>)"
    by (simp_all add: quad_def BufferAttribute_new_def vertex_count_def)
  have tri2: "\<forall>h\<in>set ([quad] @ []). triangle_shaped h"
    using tri1 by simp
  have one: "\<exists>m. mergeGeometries [quad, triangle] = Inr m \<and> 3 dvd index_count m"
    using merge_index_count_triples [OF fit1] tri1 by blast
  from merge_index_count_triples [OF fit2]
  obtain m where m: "mergeGeometries [quad, quad\<lparr>index := None\<rparr>] = Inr m"
    and br: "\<forall>pre g post.
                  [quad, quad\<lparr>index := None\<rparr>] = pre @ g # post \<and> index g = None
                  \<and> \<not> 3 dvd vertex_count g
                  \<and> (\<forall>h\<in>set (pre @ post). triangle_shaped h)
                  \<longrightarrow> \<not> 3 dvd index_count m"
    by (elim exE conjE) (rule that)
  have "[quad, quad\<lparr>index := None\<rparr>] = [quad] @ quad\<lparr>index := None\<rparr> # []"
    by simp
  with br bare tri2 have "\<not> 3 dvd index_count m" by blast
  with m have two: "\<exists>m. mergeGeometries [quad, quad\<lparr>index := None\<rparr>] = Inr m \<and> \<not> 3 dvd index_count m"
    by blast
  from fit1 fit2 have f: "attributes_fit quad" "attributes_fit triangle"
    "attributes_fit (quad\<lparr>index := None\<rparr>)" by simp_all
  from tri1 have t: "triangle_shaped quad" "triangle_shaped triangle" by simp_all
  show ?thesis
    using f t one bare two by (intro conjI)
qed

section \<open>Properties of the placement schedules\<close>

text \<open>
  Claim C8. For every thorn index and for any jitter added to its base curve parameter, the
  final placement parameter lies in the closed interval from 0.12 to 0.99.
\<close>

theorem thorn_t_clamped:
  "0.12 \<le> thorn_t i tJitter \<and> thorn_t i tJitter \<le> 0.99"
proof -
  let ?x = "tBase i + tJitter"
  have "(0.12::real) \<le> max 0.12 (min 0.99 ?x)"
    by (rule max.cobounded1)
  moreover have "max 0.12 (min 0.99 ?x) \<le> (0.99::real)"
  proof (rule max.boundedI)
    show "(0.12::real) \<le> 0.99" by simp
    show "min 0.99 ?x \<le> 0.99" by (rule min.cobounded1)
  qed
  ultimately show ?thesis by (simp only: thorn_t_def)
qed

lemma nth_FlowerHead_placements:
  "i < 22 \<Longrightarrow> FlowerHead_placements ! i = petal_placement_of i"
  by (simp add: FlowerHead_placements_def totalPetals_def)

lemma petal_theta_of: "petal_theta (petal_placement_of i) = real i * goldenAngle"
  by (simp add: petal_placement_of_def Let_def)

lemma petal_rotY_of:
  "petal_rotY (petal_placement_of i) = - petal_theta (petal_placement_of i) - pi / 2"
  by (simp add: petal_placement_of_def Let_def)

lemma golden_steps_not_full_turn:
  fixes d :: nat and k :: int
  assumes "0 < d" "d < 22"
  shows "55 * int d - 144 * k \<noteq> 0"
proof
  assume z: "55 * int d - 144 * k = 0"
  have "int d = 55 * (55 * int d) - 144 * (21 * int d)" by simp
  also have "\<dots> = 144 * (55 * k - 21 * int d)" using z by simp
  finally have "(144::int) dvd int d" by (rule dvdI)
  then have "144 \<le> int d" using assms(1) by (intro zdvd_imp_le) simp_all
  with assms(2) show False by simp
qed

lemma golden_angle_separation:
  fixes i j :: nat and k :: int
  assumes "i < j" "j < 22"
  shows "2.5 * (pi / 180) \<le> \<bar>real j * goldenAngle - real i * goldenAngle - 2 * pi * real_of_int k\<bar>"
proof -
  define d where "d = j - i"
  have d: "0 < d" "d < 22" "real j - real i = real d"
    using assms by (simp_all add: d_def)
  let ?n = "55 * int d - 144 * k"
  let ?c = "2.5 * (pi / 180) :: real"
  have c: "0 \<le> ?c" by simp
  have "real j * goldenAngle - real i * goldenAngle - 2 * pi * real_of_int k
        = (real j - real i) * goldenAngle - 2 * pi * real_of_int k"
    by (simp add: algebra_simps)
  also have "\<dots> = ?c * real_of_int ?n"
    unfolding d(3) by (simp add: goldenAngle_def algebra_simps)
  finally have "\<bar>real j * goldenAngle - real i * goldenAngle - 2 * pi * real_of_int k\<bar>
        = \<bar>?c * real_of_int ?n\<bar>"
    by (simp only:)
  also have "\<dots> = ?c * \<bar>real_of_int ?n\<bar>"
    using c by (simp only: abs_mult abs_of_nonneg)
  finally have eq: "\<bar>real j * goldenAngle - real i * goldenAngle - 2 * pi * real_of_int k\<bar>
        = ?c * \<bar>real_of_int ?n\<bar>" .
  have "?n \<noteq> 0" using d(1,2) by (rule golden_steps_not_full_turn)
  then have "1 \<le> \<bar>?n\<bar>" by simp
  then have "1 \<le> \<bar>real_of_int ?n\<bar>" by linarith
  with c have "?c * 1 \<le> ?c * \<bar>real_of_int ?n\<bar>"
    by (intro mult_left_mono)
  then show ?thesis unfolding eq by simp
qed

text \<open>
  Claim C5. The petal assembly makes exactly 22 placements; the angle of placement \<open>i\<close> is
  \<open>i\<close> times the golden angle of 137.5 degrees (in radians), so consecutive angles differ
  by exactly 137.5 degrees; no two of the 22 angles coincide modulo a full turn, any two of
  them staying at least 2.5 degrees apart modulo 360 degrees; and the yaw of each petal is
  minus its angle minus 90 degrees.
\<close>

theorem petal_golden_angle_layout:
  "length FlowerHead_placements = 22
   \<and> (\<forall>i<22. petal_theta (FlowerHead_placements ! i) = real i * (137.5 * (pi / 180))
         \<and> petal_rotY (FlowerHead_placements ! i)
             = - petal_theta (FlowerHead_placements ! i) - pi / 2)
   \<and> (\<forall>i. Suc i < 22 \<longrightarrow>
         petal_theta (FlowerHead_placements ! Suc i) - petal_theta (FlowerHead_placements ! i)
           = 137.5 * (pi / 180))
   \<and> (\<forall>i j. i < j \<and> j < 22 \<longrightarrow>
         (\<forall>k::int. 2.5 * (pi / 180)
            \<le> \<bar>petal_theta (FlowerHead_placements ! j) - petal_theta (FlowerHead_placements ! i)
                - 2 * pi * real_of_int k\<bar>))"
proof (intro conjI allI impI)
  show "length FlowerHead_placements = 22"
    by (simp add: FlowerHead_placements_def totalPetals_def)
next
  fix i :: nat assume "i < 22"
  then show "petal_theta (FlowerHead_placements ! i) = real i * (137.5 * (pi / 180))"
    by (simp only: nth_FlowerHead_placements petal_theta_of goldenAngle_def)
next
  fix i :: nat assume "i < 22"
  then show "petal_rotY (FlowerHead_placements ! i)
             = - petal_theta (FlowerHead_placements ! i) - pi / 2"
    by (simp only: nth_FlowerHead_placements petal_rotY_of)
next
  fix i :: nat assume i: "Suc i < 22"
  then have "i < 22" by simp
  with i have "petal_theta (FlowerHead_placements ! Suc i) - petal_theta (FlowerHead_placements ! i)
        = real (Suc i) * goldenAngle - real i * goldenAngle"
    by (simp only: nth_FlowerHead_placements petal_theta_of)
  also have "\<dots> = 137.5 * (pi / 180)"
    by (simp add: goldenAngle_def algebra_simps)
  finally show "petal_theta (FlowerHead_placements ! Suc i) - petal_theta (FlowerHead_placements ! i)
        = 137.5 * (pi / 180)" .
next
  fix i j :: nat and k :: int
  assume ij: "i < j \<and> j < 22"
  then have "i < 22" "j < 22" by simp_all
  then have "petal_theta (FlowerHead_placements ! j) - petal_theta (FlowerHead_placements ! i)
               - 2 * pi * real_of_int k
             = real j * goldenAngle - real i * goldenAngle - 2 * pi * real_of_int k"
    by (simp only: nth_FlowerHead_placements petal_theta_of)
  moreover have "2.5 * (pi / 180)
      \<le> \<bar>real j * goldenAngle - real i * goldenAngle - 2 * pi * real_of_int k\<bar>"
    using ij by (intro golden_angle_separation) simp_all
  ultimately show "2.5 * (pi / 180)
      \<le> \<bar>petal_theta (FlowerHead_placements ! j) - petal_theta (FlowerHead_placements ! i)
          - 2 * pi * real_of_int k\<bar>"
    by (simp only:)
qed

theorem petal_golden_angle_layout_witness:
  "length FlowerHead_placements = 22
   \<and> petal_theta (FlowerHead_placements ! 3) = 3 * (137.5 * (pi / 180))
   \<and> petal_rotY (FlowerHead_placements ! 3) = - petal_theta (FlowerHead_placements ! 3) - pi / 2
   \<and> petal_theta (FlowerHead_placements ! Suc 3) - petal_theta (FlowerHead_placements ! 3)
       = 137.5 * (pi / 180)
   \<and> 2.5 * (pi / 180)
       \<le> \<bar>petal_theta (FlowerHead_placements ! 5) - petal_theta (FlowerHead_placements ! 3)
           - 2 * pi * real_of_int 1\<bar>"
proof -
  note L = petal_golden_angle_layout
  have a: "length FlowerHead_placements = 22" using L by (rule conjunct1)
  have b: "\<forall>i<22. petal_theta (FlowerHead_placements ! i) = real i * (137.5 * (pi / 180))
         \<and> petal_rotY (FlowerHead_placements ! i)
             = - petal_theta (FlowerHead_placements ! i) - pi / 2"
    using L by (elim conjE)
  have c: "\<forall>i. Suc i < 22 \<longrightarrow>
         petal_theta (FlowerHead_placements ! Suc i) - petal_theta (FlowerHead_placements ! i)
           = 137.5 * (pi / 180)"
    using L by (elim conjE)
  have d: "\<forall>i j. i < j \<and> j < 22 \<longrightarrow>
         (\<forall>k::int. 2.5 * (pi / 180)
            \<le> \<bar>petal_theta (FlowerHead_placements ! j) - petal_theta (FlowerHead_placements ! i)
                - 2 * pi * real_of_int k\<bar>)"
    using L by (elim conjE)
  have "(3::nat) < 22" by simp
  with b have b3: "petal_theta (FlowerHead_placements ! 3) = real 3 * (137.5 * (pi / 180))
         \<and> petal_rotY (FlowerHead_placements ! 3)
             = - petal_theta (FlowerHead_placements ! 3) - pi / 2"
    by blast
  have "Suc 3 < 22" by simp
  with c have c3: "petal_theta (FlowerHead_placements ! Suc 3)
      - petal_theta (FlowerHead_placements ! 3) = 137.5 * (pi / 180)"
    by blast
  have "(3::nat) < 5 \<and> (5::nat) < 22" by simp
  with d have d35: "2.5 * (pi / 180)
       \<le> \<bar>petal_theta (FlowerHead_placements ! 5) - petal_theta (FlowerHead_placements ! 3)
           - 2 * pi * real_of_int 1\<bar>"
    by blast
  show ?thesis using a b3 c3 d35 by simp
qed

section \<open>Properties of the petal width envelope\<close>

lemma shapeWidth_unfold:
  "shapeWidth v = (max 0 (sin (v * pi * 0.85))) powr 0.4 * min 1 (v * 3.5)"
  by (simp add: shapeWidth_def Let_def)

lemma shapeWidth_zero: "shapeWidth 0 = 0"
  by (simp add: shapeWidth_unfold)

lemma shapeWidth_nonneg:
  assumes "0 \<le> v"
  shows "0 \<le> shapeWidth v"
proof -
  have "0 \<le> (max 0 (sin (v * pi * 0.85))) powr 0.4" by (rule powr_ge_zero)
  moreover have "0 \<le> min 1 (v * 3.5)" using assms by simp
  ultimately show ?thesis unfolding shapeWidth_unfold by (rule mult_nonneg_nonneg)
qed

lemma sin_envelope_pos:
  assumes "0 < v" "v \<le> 1"
  shows "0 < sin (v * pi * 0.85)"
proof (rule sin_gt_zero)
  show "0 < v * pi * 0.85" using assms(1) by simp
  have "v * pi * 0.85 \<le> 1 * pi * 0.85"
    using assms(2) by (intro mult_right_mono) simp_all
  also have "\<dots> < pi" by simp
  finally show "v * pi * 0.85 < pi" .
qed

lemma shapeWidth_pos:
  assumes "0 < v" "v \<le> 1"
  shows "0 < shapeWidth v"
proof -
  have "0 < sin (v * pi * 0.85)" using assms by (rule sin_envelope_pos)
  then have "0 < (max 0 (sin (v * pi * 0.85))) powr 0.4" by (simp add: max_def)
  moreover have "0 < min 1 (v * 3.5)" using assms(1) by simp
  ultimately show ?thesis unfolding shapeWidth_unfold by (rule mult_pos_pos)
qed

lemma shapeWidth_le_one:
  assumes "0 \<le> v"
  shows "shapeWidth v \<le> 1"
proof -
  have "\<bar>max 0 (sin (v * pi * 0.85))\<bar> \<le> 1" by (simp add: max_def)
  then have "(max 0 (sin (v * pi * 0.85))) powr 0.4 \<le> 1" by (intro powr_le1) simp_all
  moreover have "0 \<le> (max 0 (sin (v * pi * 0.85))) powr 0.4" by (rule powr_ge_zero)
  moreover have "min 1 (v * 3.5) \<le> 1" "0 \<le> min 1 (v * 3.5)" using assms by simp_all
  ultimately have "(max 0 (sin (v * pi * 0.85))) powr 0.4 * min 1 (v * 3.5) \<le> 1 * 1"
    by (intro mult_mono) simp_all
  then show ?thesis by (simp add: shapeWidth_unfold)
qed

lemma sin_decreasing_past_half_pi:
  assumes "pi / 2 \<le> x" "x < y" "y \<le> pi"
  shows "sin y < sin x"
proof -
  have "cos (y - pi / 2) < cos (x - pi / 2)"
    using assms by (intro cos_monotone_0_pi) simp_all
  then show ?thesis by (simp add: cos_diff)
qed

lemma shapeWidth_decreasing:
  assumes "10 / 17 \<le> u" "u < v" "v \<le> 1"
  shows "shapeWidth v < shapeWidth u"
proof -
  have u1: "0 < u" "u \<le> 1" and v0: "0 < v" using assms by simp_all
  have "pi / 2 = (10 / 17) * pi * 0.85" by simp
  also have "\<dots> \<le> u * pi * 0.85"
    using assms(1) by (intro mult_right_mono) simp_all
  finally have lo: "pi / 2 \<le> u * pi * 0.85" .
  have mid: "u * pi * 0.85 < v * pi * 0.85" using assms(2) by simp
  have "v * pi * 0.85 \<le> 1 * pi * 0.85"
    using assms(3) by (intro mult_right_mono) simp_all
  then have hi: "v * pi * 0.85 \<le> pi" by simp
  have s: "sin (v * pi * 0.85) < sin (u * pi * 0.85)"
    using lo mid hi by (rule sin_decreasing_past_half_pi)
  have sv: "0 < sin (v * pi * 0.85)" using v0 assms(3) by (rule sin_envelope_pos)
  have "(max 0 (sin (v * pi * 0.85))) powr 0.4 < (max 0 (sin (u * pi * 0.85))) powr 0.4"
    using s sv by (intro powr_less_mono2) (simp_all add: max_def)
  moreover have "min 1 (v * 3.5) = 1" "min 1 (u * 3.5) = 1"
    using assms by (simp_all add: min_def)
  ultimately show ?thesis by (simp add: shapeWidth_unfold)
qed

lemma sin_tip_lower_bound: "1 / 32 < (sin (1 * pi * 0.85))\<^sup>2"
proof -
  let ?t = "sin (pi / 12)"
  have t0: "0 < ?t" by (intro sin_gt_zero) simp_all
  have "cos (pi / 6) = cos (2 * (pi / 12))" by simp
  also have "\<dots> = 1 - 2 * ?t\<^sup>2" by (rule cos_double_sin)
  finally have "?t\<^sup>2 = (2 - sqrt 3) / 4" by (simp add: cos_30 field_simps)
  moreover have "sqrt 3 < 15 / 8" by (intro real_less_lsqrt) (simp_all add: power2_eq_square)
  ultimately have t2: "1 / 32 < ?t\<^sup>2" by simp
  have "sin (1 * pi * 0.85) = sin (pi - 0.15 * pi)" by (simp add: algebra_simps)
  also have "\<dots> = sin (0.15 * pi)" by (rule sin_pi_minus)
  finally have s: "sin (1 * pi * 0.85) = sin (0.15 * pi)" .
  have "?t < sin (0.15 * pi)" by (rule sin_monotone_2pi) simp_all
  with t0 have "\<bar>?t\<bar> < \<bar>sin (0.15 * pi)\<bar>" by simp
  then have "?t\<^sup>2 < (sin (0.15 * pi))\<^sup>2"
    by (rule power2_strict_mono)
  with t2 show ?thesis unfolding s by simp
qed

lemma shapeWidth_tip: "1 / 2 < shapeWidth 1"
proof -
  let ?s = "sin (1 * pi * 0.85)" and ?c = "(1 / 2) powr 2.5 :: real"
  have s0: "0 < ?s" by (intro sin_envelope_pos) simp_all
  have "?c\<^sup>2 = ?c * ?c" by (simp add: power2_eq_square)
  also have "\<dots> = (1 / 2) powr (2.5 + 2.5)" by (simp only: powr_add)
  also have "\<dots> = (1 / 2) powr 5" by simp
  also have "\<dots> = 1 / 32" by (simp add: powr_numeral power_divide)
  finally have "?c\<^sup>2 < ?s\<^sup>2" using sin_tip_lower_bound by simp
  moreover have "0 \<le> ?s" using s0 by simp
  ultimately have cs: "?c < ?s" by (rule power2_less_imp_less)
  have one: "2.5 * 0.4 = (1::real)" by simp
  have "?c powr 0.4 = (1 / 2) powr (2.5 * 0.4)" by (rule powr_powr)
  also have "\<dots> = 1 / 2" by (simp only: one powr_one')
  finally have half: "?c powr 0.4 = 1 / 2" .
  have "?c powr 0.4 < ?s powr 0.4"
    using cs by (rule powr_less_mono2 [rotated 2]) simp_all
  then have "1 / 2 < ?s powr 0.4" unfolding half .
  moreover have "shapeWidth 1 = ?s powr 0.4"
    using s0 by (simp add: shapeWidth_unfold max_def)
  ultimately show ?thesis by simp
qed

text \<open>
  Claim C6, as stated: the width envelope is 0 at \<open>v = 0\<close>, never negative on \<open>[0, 1]\<close>,
  positive and bounded on \<open>(0, 0.857)\<close>, and returns toward 0 as \<open>v\<close> goes to 1. The last
  part does not hold: at \<open>v = 1\<close> the envelope is \<open>sin (0.85 pi)\<close> to the power 0.4, about
  0.73, and in any case more than one half.
\<close>

theorem shapeWidth_tip_above_half: "1 / 2 < shapeWidth 1"
  by (rule shapeWidth_tip)

text \<open>
  Claim C6, amended. The width envelope is 0 at \<open>v = 0\<close>; it is never negative on
  \<open>[0, 1]\<close>, the range the clamped coordinate of every vertex lies in; it is positive and
  at most 1 on all of \<open>(0, 1]\<close>; from its peak at \<open>v = 10/17\<close> on it decreases strictly
  up to \<open>v = 1\<close>, where it is still above one half: it does not come back to 0.
\<close>

theorem shapeWidth_envelope:
  "shapeWidth 0 = 0
   \<and> (\<forall>v. 0 \<le> v \<and> v \<le> 1 \<longrightarrow> 0 \<le> shapeWidth v)
   \<and> (\<forall>v. 0 < v \<and> v \<le> 1 \<longrightarrow> 0 < shapeWidth v \<and> shapeWidth v \<le> 1)
   \<and> (\<forall>u v. 10 / 17 \<le> u \<and> u < v \<and> v \<le> 1 \<longrightarrow> shapeWidth v < shapeWidth u)
   \<and> (\<forall>vertex_y. 0 \<le> shapeWidth (petal_v vertex_y) \<and> shapeWidth (petal_v vertex_y) \<le> 1)
   \<and> 1 / 2 < shapeWidth 1"
proof (intro conjI allI impI)
  show "shapeWidth 0 = 0" by (rule shapeWidth_zero)
next
  fix v :: real assume "0 \<le> v \<and> v \<le> 1"
  then show "0 \<le> shapeWidth v" by (intro shapeWidth_nonneg) simp
next
  fix v :: real assume "0 < v \<and> v \<le> 1"
  then show "0 < shapeWidth v" by (intro shapeWidth_pos) simp_all
next
  fix v :: real assume "0 < v \<and> v \<le> 1"
  then show "shapeWidth v \<le> 1" by (intro shapeWidth_le_one) simp
next
  fix u v :: real assume "10 / 17 \<le> u \<and> u < v \<and> v \<le> 1"
  then show "shapeWidth v < shapeWidth u" by (intro shapeWidth_decreasing) simp_all
next
  fix vertex_y :: real
  show "0 \<le> shapeWidth (petal_v vertex_y)"
    by (intro shapeWidth_nonneg) (simp add: petal_v_def)
next
  fix vertex_y :: real
  show "shapeWidth (petal_v vertex_y) \<le> 1"
    by (intro shapeWidth_le_one) (simp add: petal_v_def)
next
  show "1 / 2 < shapeWidth 1" by (rule shapeWidth_tip)
qed

theorem shapeWidth_envelope_witness:
  "shapeWidth 0 = 0
   \<and> 0 \<le> shapeWidth (1 / 2)
   \<and> 0 < shapeWidth (1 / 2) \<and> shapeWidth (1 / 2) \<le> 1
   \<and> shapeWidth 1 < shapeWidth (3 / 4)
   \<and> 1 / 2 < shapeWidth 1"
proof -
  note E = shapeWidth_envelope
  have a: "shapeWidth 0 = 0" using E by (rule conjunct1)
  have b: "\<forall>v. 0 \<le> v \<and> v \<le> 1 \<longrightarrow> 0 \<le> shapeWidth v"
    using E by (elim conjE)
  have c: "\<forall>v. 0 < v \<and> v \<le> 1 \<longrightarrow> 0 < shapeWidth v \<and> shapeWidth v \<le> 1"
    using E by (elim conjE)
  have d: "\<forall>u v. 10 / 17 \<le> u \<and> u < v \<and> v \<le> 1 \<longrightarrow> shapeWidth v < shapeWidth u"
    using E by (elim conjE)
  have e: "1 / 2 < shapeWidth 1" using E by (elim conjE)
  have "(0::real) \<le> 1 / 2 \<and> (1 / 2 :: real) \<le> 1" by simp
  with b have b': "0 \<le> shapeWidth (1 / 2)" by blast
  have "(0::real) < 1 / 2 \<and> (1 / 2 :: real) \<le> 1" by simp
  with c have c': "0 < shapeWidth (1 / 2) \<and> shapeWidth (1 / 2) \<le> 1" by blast
  have "(10 / 17 :: real) \<le> 3 / 4 \<and> (3 / 4 :: real) < 1 \<and> (1::real) \<le> 1" by simp
  with d have d': "shapeWidth 1 < shapeWidth (3 / 4)" by blast
  show ?thesis using a b' c' d' e by (intro conjI) simp_all
qed

section \<open>Properties of the curve frame\<close>

lemma normalize_unit: "lengthSq v = 1 \<Longrightarrow> normalize v = v"
  by (simp add: normalize_def vlength_def divideScalar_def multiplyScalar_def)

lemma rotate_x_about_y:
  "applyAxisAngle \<lparr>vx = 1, vy = 0, vz = 0\<rparr> \<lparr>vx = 0, vy = 1, vz = 0\<rparr> angle
   = \<lparr>vx = cos angle, vy = 0, vz = - sin angle\<rparr>"
proof -
  have c: "cos angle = 1 - 2 * (sin (angle / 2))\<^sup>2"
    using cos_double_sin [of "angle / 2"] by simp
  have s: "sin angle = 2 * sin (angle / 2) * cos (angle / 2)"
    using sin_double [of "angle / 2"] by simp
  show ?thesis
    by (simp add: applyAxisAngle_def applyQuaternion_def setFromAxisAngle_def Let_def c s
        power2_eq_square)
qed

lemma thorn_up_world_up:
  "thorn_up \<lparr>vx = 0, vy = 1, vz = 0\<rparr> = \<lparr>vx = 0, vy = 0, vz = 1\<rparr>"
  by (simp add: thorn_up_def)

lemma thorn_tangent_world_up:
  "thorn_tangent \<lparr>vx = 0, vy = 1, vz = 0\<rparr> = \<lparr>vx = 0, vy = 1, vz = 0\<rparr>"
proof -
  have "normalize \<lparr>vx = 0, vy = 1, vz = 0\<rparr> = \<lparr>vx = 0, vy = 1, vz = 0\<rparr>"
    by (rule normalize_unit) (simp add: lengthSq_def)
  then show ?thesis by (simp add: thorn_tangent_def Let_def lengthSq_def)
qed

lemma thorn_basis_world_up:
  "thorn_basis \<lparr>vx = 0, vy = 1, vz = 0\<rparr> angle
   = \<lparr>xAxis = \<lparr>vx = - sin angle, vy = 0, vz = - cos angle\<rparr>,
      yAxis = \<lparr>vx = cos angle, vy = 0, vz = - sin angle\<rparr>,
      zAxis = \<lparr>vx = 0, vy = - 1, vz = 0\<rparr>\<rparr>"
proof -
  let ?T = "\<lparr>vx = 0, vy = 1, vz = 0\<rparr>"
  let ?y = "\<lparr>vx = cos angle, vy = 0, vz = - sin angle\<rparr>"
  let ?x = "\<lparr>vx = - sin angle, vy = 0, vz = - cos angle\<rparr>"
  let ?z = "\<lparr>vx = 0, vy = - 1, vz = 0\<rparr>"
  have sc: "sin angle * sin angle + cos angle * cos angle = 1"
    using sin_cos_squared_add [of angle] by (simp add: power2_eq_square)
  have cs: "cos angle * cos angle + sin angle * sin angle = 1"
    using sc by (simp add: add.commute)
  have b: "normalize (crossVectors ?T (thorn_up ?T)) = \<lparr>vx = 1, vy = 0, vz = 0\<rparr>"
  proof -
    have "crossVectors ?T (thorn_up ?T) = \<lparr>vx = 1, vy = 0, vz = 0\<rparr>"
      by (simp add: thorn_up_world_up crossVectors_def)
    moreover have "normalize \<lparr>vx = 1, vy = 0, vz = 0\<rparr> = \<lparr>vx = 1, vy = 0, vz = 0\<rparr>"
      by (rule normalize_unit) (simp add: lengthSq_def)
    ultimately show ?thesis by simp
  qed
  have n: "normalize (applyAxisAngle \<lparr>vx = 1, vy = 0, vz = 0\<rparr> ?T angle) = ?y"
    unfolding rotate_x_about_y by (rule normalize_unit) (simp add: lengthSq_def cs)
  have x: "normalize (crossVectors ?y (negate ?T)) = ?x"
  proof -
    have "crossVectors ?y (negate ?T) = ?x"
      by (simp add: crossVectors_def negate_def)
    moreover have "normalize ?x = ?x"
      by (rule normalize_unit) (simp add: lengthSq_def sc)
    ultimately show ?thesis by simp
  qed
  have z: "normalize (crossVectors ?x ?y) = ?z"
  proof -
    have "- (cos angle * cos angle) - sin angle * sin angle = - 1"
      using cs by linarith
    then have "crossVectors ?x ?y = ?z"
      by (simp add: crossVectors_def)
    moreover have "normalize ?z = ?z"
      by (rule normalize_unit) (simp add: lengthSq_def)
    ultimately show ?thesis by simp
  qed
  show ?thesis
    unfolding thorn_basis_def Let_def b n x z ..
qed

text \<open>
  Claim C7. When the frame is built for a tangent equal to the world up axis, the reference
  up vector is replaced by the secondary world axis (0, 0, 1), and the resulting basis is
  orthonormal whatever the angle of the thorn around the stem: its three axes are pairwise
  orthogonal and each has length 1.
\<close>

theorem thorn_frame_world_up_orthonormal:
  "thorn_tangent \<lparr>vx = 0, vy = 1, vz = 0\<rparr> = \<lparr>vx = 0, vy = 1, vz = 0\<rparr>
   \<and> thorn_up \<lparr>vx = 0, vy = 1, vz = 0\<rparr> = \<lparr>vx = 0, vy = 0, vz = 1\<rparr>
   \<and> dot (xAxis (thorn_basis \<lparr>vx = 0, vy = 1, vz = 0\<rparr> angle))
         (yAxis (thorn_basis \<lparr>vx = 0, vy = 1, vz = 0\<rparr> angle)) = 0
   \<and> dot (xAxis (thorn_basis \<lparr>vx = 0, vy = 1, vz = 0\<rparr> angle))
         (zAxis (thorn_basis \<lparr>vx = 0, vy = 1, vz = 0\<rparr> angle)) = 0
   \<and> dot (yAxis (thorn_basis \<lparr>vx = 0, vy = 1, vz = 0\<rparr> angle))
         (zAxis (thorn_basis \<lparr>vx = 0, vy = 1, vz = 0\<rparr> angle)) = 0
   \<and> vlength (xAxis (thorn_basis \<lparr>vx = 0, vy = 1, vz = 0\<rparr> angle)) = 1
   \<and> vlength (yAxis (thorn_basis \<lparr>vx = 0, vy = 1, vz = 0\<rparr> angle)) = 1
   \<and> vlength (zAxis (thorn_basis \<lparr>vx = 0, vy = 1, vz = 0\<rparr> angle)) = 1"
proof -
  have sc: "sin angle * sin angle + cos angle * cos angle = 1"
    using sin_cos_squared_add [of angle] by (simp add: power2_eq_square)
  have cs: "cos angle * cos angle + sin angle * sin angle = 1"
    using sc by (simp add: add.commute)
  have xy: "dot \<lparr>vx = - sin angle, vy = 0, vz = - cos angle\<rparr>
              \<lparr>vx = cos angle, vy = 0, vz = - sin angle\<rparr> = 0"
    by (simp add: dot_def)
  have xz: "dot \<lparr>vx = - sin angle, vy = 0, vz = - cos angle\<rparr> \<lparr>vx = 0, vy = - 1, vz = 0\<rparr> = 0"
    by (simp add: dot_def)
  have yz: "dot \<lparr>vx = cos angle, vy = 0, vz = - sin angle\<rparr> \<lparr>vx = 0, vy = - 1, vz = 0\<rparr> = 0"
    by (simp add: dot_def)
  have lx: "vlength \<lparr>vx = - sin angle, vy = 0, vz = - cos angle\<rparr> = 1"
    by (simp add: vlength_def lengthSq_def sc)
  have ly: "vlength \<lparr>vx = cos angle, vy = 0, vz = - sin angle\<rparr> = 1"
    by (simp add: vlength_def lengthSq_def cs)
  have lz: "vlength \<lparr>vx = 0, vy = - 1, vz = 0\<rparr> = 1"
    by (simp add: vlength_def lengthSq_def)
  show ?thesis
    unfolding thorn_basis_world_up thorn_tangent_world_up thorn_up_world_up
    using xy xz yz lx ly lz by simp
qed

end
